theory Spec2Isabelle
  imports Main "HOL-Library.AList" "HOL-Library.Sublist"
begin

section \<open>Python values used by the validator\<close>

text \<open>
  Python strings are modelled as \<^typ>\<open>string\<close>, one \<^typ>\<open>char\<close> per code point
  (code points below 256). Exceptions are values of the type \<open>error\<close>; a function that can
  raise returns \<open>error + 'a\<close>, with \<open>Inl\<close> for the exception. Only the built-in
  exceptions that the two modules can raise occur: the modules define no exception class
  of their own.
\<close>

datatype error = IndexError | KeyError string | ValueError string

text \<open>
  The characters that \<^verbatim>\<open>str.strip()\<close>, \<^verbatim>\<open>int()\<close> and the regular-expression class
  \<^verbatim>\<open>\s\<close> treat as whitespace, among the code points below 256: TAB, LF, VT, FF, CR,
  FS, GS, RS, US, SPACE, NEL and NBSP.
\<close>

definition is_space :: "char \<Rightarrow> bool" where
  "is_space c = (of_char c \<in> {9::nat, 10, 11, 12, 13, 28, 29, 30, 31, 32, 133, 160})"

definition strip :: "string \<Rightarrow> string" where
  "strip s = rev (dropWhile is_space (rev (dropWhile is_space s)))"

text \<open>\<^verbatim>\<open>s.find(c)\<close> for a single character: the first position of \<open>c\<close>, or \<open>-1\<close>.\<close>

fun find_from :: "char \<Rightarrow> int \<Rightarrow> string \<Rightarrow> int" where
  "find_from c i [] = -1"
| "find_from c i (x # xs) = (if x = c then i else find_from c (i + 1) xs)"

definition str_find :: "string \<Rightarrow> char \<Rightarrow> int" where
  "str_find s c = find_from c 0 s"

text \<open>
  \<^verbatim>\<open>s.split(sep)\<close> for a non-empty separator: the pieces between the
  non-overlapping occurrences of \<open>sep\<close>, found from the left. The source calls it with
  the literals \<^verbatim>\<open>' '\<close> and \<^verbatim>\<open>'; '\<close> only.
\<close>

function split_acc :: "string \<Rightarrow> string \<Rightarrow> string \<Rightarrow> string list" where
  "split_acc sep acc [] = [rev acc]"
| "split_acc sep acc (c # cs) =
     (if sep \<noteq> [] \<and> prefix sep (c # cs)
      then rev acc # split_acc sep [] (drop (length sep) (c # cs))
      else split_acc sep (c # acc) cs)"
  by pat_completeness auto
termination
  by (relation "measure (\<lambda>(sep, acc, s). length s)") (auto simp: neq_Nil_conv)

definition split :: "string \<Rightarrow> string \<Rightarrow> string list" where
  "split s sep = split_acc sep [] s"

text \<open>
  \<^verbatim>\<open>str(n)\<close> and the \<^verbatim>\<open>{n}\<close> field of an f-string, for an integer: decimal digits,
  with a minus sign for a negative number.
\<close>

definition digit_char :: "nat \<Rightarrow> char" where
  "digit_char d = char_of (48 + d)"

fun str_nat :: "nat \<Rightarrow> string" where
  "str_nat n = (if n < 10 then [digit_char n] else str_nat (n div 10) @ [digit_char (n mod 10)])"

declare str_nat.simps [simp del]

definition str_int :: "int \<Rightarrow> string" where
  "str_int i = (if i < 0 then CHR ''-'' # str_nat (nat (- i)) else str_nat (nat i))"

text \<open>
  \<^verbatim>\<open>int(s)\<close> for a string: surrounding whitespace is dropped, then an optional sign,
  then decimal digits, where single underscores may stand between digits. Anything else
  raises \<^verbatim>\<open>ValueError\<close>, and so does a string with more than 4300 digits (the
  default limit of the interpreter on the conversion). The whitespace that \<^verbatim>\<open>int\<close>
  drops is narrower than that of \<^verbatim>\<open>str.strip\<close>: the separators FS, GS, RS and US (code
  points 28 to 31) are not part of it.
\<close>

definition is_int_space :: "char \<Rightarrow> bool" where
  "is_int_space c = (of_char c \<in> {9::nat, 10, 11, 12, 13, 32, 133, 160})"

definition int_strip :: "string \<Rightarrow> string" where
  "int_strip s = rev (dropWhile is_int_space (rev (dropWhile is_int_space s)))"

definition is_digit :: "char \<Rightarrow> bool" where
  "is_digit c = (48 \<le> (of_char c :: nat) \<and> (of_char c :: nat) \<le> 57)"

definition digit_val :: "char \<Rightarrow> nat" where
  "digit_val c = of_char c - 48"

fun parse_digits :: "nat \<Rightarrow> string \<Rightarrow> nat option" where
  "parse_digits acc [] = Some acc"
| "parse_digits acc [c] = (if is_digit c then Some (10 * acc + digit_val c) else None)"
| "parse_digits acc (c # d # ds) =
     (if is_digit c then parse_digits (10 * acc + digit_val c) (d # ds)
      else if c = CHR ''_'' \<and> is_digit d then parse_digits (10 * acc + digit_val d) ds
      else None)"

definition parse_nat :: "string \<Rightarrow> nat option" where
  "parse_nat s = (case s of [] \<Rightarrow> None
                  | c # cs \<Rightarrow> if is_digit c then parse_digits (digit_val c) cs else None)"

definition py_int :: "string \<Rightarrow> error + int" where
  "py_int s =
     (let t = int_strip s;
          r = (if 4300 < length (filter is_digit t) then None
               else case t of [] \<Rightarrow> None
                    | c # cs \<Rightarrow> if c = CHR ''-'' then map_option (\<lambda>n. - int n) (parse_nat cs)
                               else if c = CHR ''+'' then map_option int (parse_nat cs)
                               else map_option int (parse_nat t))
      in case r of None \<Rightarrow> Inl (ValueError s) | Some i \<Rightarrow> Inr i)"

text \<open>
  Indexing a list, \<^verbatim>\<open>xs[i]\<close>: a negative index counts from the end, and an index outside
  \<open>[-len, len)\<close> raises \<^verbatim>\<open>IndexError\<close>. The result is the position addressed.
\<close>

definition py_index :: "'a list \<Rightarrow> int \<Rightarrow> error + nat" where
  "py_index xs i =
     (if 0 \<le> i \<and> i < int (length xs) then Inr (nat i)
      else if - int (length xs) \<le> i \<and> i < 0 then Inr (nat (i + int (length xs)))
      else Inl IndexError)"

section \<open>table\_reader.py\<close>

subsection \<open>The regular expressions of AgentItem and VenueInfo\<close>

text \<open>
  The two patterns have the shape \<^verbatim>\<open>((?:s1|s2|...):\S+)(?=\s|\])\<close>. \<open>lookahead\<close> is
  the assertion \<^verbatim>\<open>(?=\s|\])\<close> on the rest of the input. \<open>match_body\<close> is the greedy
  \<^verbatim>\<open>\S+\<close> followed by the assertion: the engine takes the whole run of non-whitespace
  characters and gives characters back one at a time until the assertion holds; the
  result is the number of characters kept. \<open>match_alt\<close> tries the alternatives in
  order at the current position and gives the length of the match.
  \<open>finditer\<close> is \<^verbatim>\<open>[m.group() for m in finditer(pattern, raw)]\<close>: the matches from the
  left, each search starting where the last match ended.
\<close>

fun lookahead :: "string \<Rightarrow> bool" where
  "lookahead [] = False"
| "lookahead (c # cs) = (is_space c \<or> c = CHR '']'')"

definition match_body :: "string \<Rightarrow> nat option" where
  "match_body s =
     (let run = length (takeWhile (\<lambda>c. \<not> is_space c) s)
      in List.find (\<lambda>k. lookahead (drop k s)) (rev [1..<Suc run]))"

fun match_alt :: "string list \<Rightarrow> string \<Rightarrow> nat option" where
  "match_alt [] s = None"
| "match_alt (scheme # rest) s =
     (if prefix (scheme @ '':'') s
      then (case match_body (drop (length scheme + 1) s) of
              Some k \<Rightarrow> Some (length scheme + 1 + k)
            | None \<Rightarrow> match_alt rest s)
      else match_alt rest s)"

lemma match_alt_pos: "match_alt schemes s = Some n \<Longrightarrow> 0 < n"
  by (induction schemes) (auto split: if_splits option.splits)

function finditer :: "string list \<Rightarrow> string \<Rightarrow> string list" where
  "finditer schemes [] = []"
| "finditer schemes (c # cs) =
     (case match_alt schemes (c # cs) of
        Some n \<Rightarrow> take n (c # cs) # finditer schemes (drop n (c # cs))
      | None \<Rightarrow> finditer schemes cs)"
  by pat_completeness auto
termination
  by (relation "measure (\<lambda>(schemes, s). length s)") (auto dest: match_alt_pos)

definition agent_schemes :: "string list" where
  "agent_schemes = [''crossref'', ''orcid'', ''viaf'', ''wikidata'', ''ror'', ''omid'']"

definition venue_schemes :: "string list" where
  "venue_schemes = [''doi'', ''issn'', ''isbn'', ''url'', ''wikidata'', ''wikipedia'',
     ''openalex'', ''omid'', ''jid'', ''arxiv'']"

text \<open>The name part: everything before the first \<^verbatim>\<open>[\<close>, or the whole string, stripped.\<close>

definition parse_name :: "string \<Rightarrow> string" where
  "parse_name raw =
     (let bracket_pos = str_find raw CHR ''[''
      in if bracket_pos \<noteq> -1 then strip (take (nat bracket_pos) raw) else strip raw)"

record AgentItem =
  agent_raw :: string
  agent_name :: string
  agent_ids :: "string list"

definition AgentItem_init :: "string \<Rightarrow> AgentItem" where
  "AgentItem_init raw =
     \<lparr>agent_raw = raw, agent_name = parse_name raw, agent_ids = finditer agent_schemes raw\<rparr>"

record VenueInfo =
  venue_raw :: string
  venue_name :: string
  venue_ids :: "string list"

definition VenueInfo_init :: "string \<Rightarrow> VenueInfo" where
  "VenueInfo_init raw =
     \<lparr>venue_raw = raw, venue_name = parse_name raw, venue_ids = finditer venue_schemes raw\<rparr>"

subsection \<open>MetadataRow and CitationsRow\<close>

text \<open>
  A raw row is a dictionary from column names to strings, read by \<^verbatim>\<open>.get\<close> only: it is
  modelled as a map, where \<open>None\<close> is a missing key (or a key whose value is
  \<^verbatim>\<open>None\<close>, which \<^verbatim>\<open>.get\<close> returns as it is).
\<close>

type_synonym raw_row = "string \<rightharpoonup> string"

text \<open>\<^verbatim>\<open>if not value\<close> holds for \<^verbatim>\<open>None\<close> and for the empty string.\<close>

definition parse_id_field :: "string option \<Rightarrow> string list" where
  "parse_id_field v =
     (case v of None \<Rightarrow> [] | Some s \<Rightarrow> if s = [] then [] else split s '' '')"

definition parse_agent_field :: "string option \<Rightarrow> AgentItem list option" where
  "parse_agent_field v =
     (case v of None \<Rightarrow> None
      | Some s \<Rightarrow> if s = [] then None else Some (map AgentItem_init (split s ''; '')))"

definition parse_venue_field :: "string option \<Rightarrow> VenueInfo option" where
  "parse_venue_field v =
     (case v of None \<Rightarrow> None | Some s \<Rightarrow> if s = [] then None else Some (VenueInfo_init s))"

record MetadataRow =
  row_id :: "string list"
  title :: "string option"
  author :: "AgentItem list option"
  pub_date :: "string option"
  venue :: "VenueInfo option"
  volume :: "string option"
  issue :: "string option"
  page :: "string option"
  row_type :: "string option"
  publisher :: "AgentItem list option"
  editor :: "AgentItem list option"

text \<open>\<^verbatim>\<open>raw_row.get('id', '')\<close> gives the empty string for a missing key.\<close>

definition MetadataRow_init :: "raw_row \<Rightarrow> MetadataRow" where
  "MetadataRow_init raw_row =
     \<lparr>row_id = parse_id_field (raw_row ''id''),
      title = raw_row ''title'',
      author = parse_agent_field (raw_row ''author''),
      pub_date = raw_row ''pub_date'',
      venue = parse_venue_field (raw_row ''venue''),
      volume = raw_row ''volume'',
      issue = raw_row ''issue'',
      page = raw_row ''page'',
      row_type = raw_row ''type'',
      publisher = parse_agent_field (raw_row ''publisher''),
      editor = parse_agent_field (raw_row ''editor'')\<rparr>"

record CitationsRow =
  citing_id :: "string list"
  citing_publication_date :: "string option"
  cited_id :: "string list"
  cited_publication_date :: "string option"

definition CitationsRow_init :: "raw_row \<Rightarrow> CitationsRow" where
  "CitationsRow_init raw_row =
     \<lparr>citing_id = parse_id_field (raw_row ''citing_id''),
      citing_publication_date = raw_row ''citing_publication_date'',
      cited_id = parse_id_field (raw_row ''cited_id''),
      cited_publication_date = raw_row ''cited_publication_date''\<rparr>"

text \<open>
  \<open>flat_serialise\<close>: every field as a list of strings. A dictionary whose order of
  keys matters is an association list, in the order of insertion.
  \<open>scalar_items\<close> is \<^verbatim>\<open>[x] if x is not None else []\<close>, \<open>agent_items\<close> is
  \<^verbatim>\<open>[str(agent) for agent in xs] if xs is not None else []\<close>, and \<open>venue_items\<close> is
  \<^verbatim>\<open>[str(self.venue)] if self.venue is not None else []\<close>; \<^verbatim>\<open>str\<close> of an agent or a
  venue is the raw string it was parsed from.
\<close>

definition scalar_items :: "string option \<Rightarrow> string list" where
  "scalar_items x = (case x of Some s \<Rightarrow> [s] | None \<Rightarrow> [])"

definition agent_items :: "AgentItem list option \<Rightarrow> string list" where
  "agent_items xs = (case xs of Some ags \<Rightarrow> map agent_raw ags | None \<Rightarrow> [])"

definition venue_items :: "VenueInfo option \<Rightarrow> string list" where
  "venue_items x = (case x of Some v \<Rightarrow> [venue_raw v] | None \<Rightarrow> [])"

definition MetadataRow_flat_serialise :: "MetadataRow \<Rightarrow> (string \<times> string list) list" where
  "MetadataRow_flat_serialise r =
     [(''id'', row_id r),
      (''title'', scalar_items (title r)),
      (''author'', agent_items (author r)),
      (''pub_date'', scalar_items (pub_date r)),
      (''venue'', venue_items (venue r)),
      (''volume'', scalar_items (volume r)),
      (''issue'', scalar_items (issue r)),
      (''page'', scalar_items (page r)),
      (''type'', scalar_items (row_type r)),
      (''publisher'', agent_items (publisher r)),
      (''editor'', agent_items (editor r))]"

definition CitationsRow_flat_serialise :: "CitationsRow \<Rightarrow> (string \<times> string list) list" where
  "CitationsRow_flat_serialise r =
     [(''citing_id'', citing_id r),
      (''citing_publication_date'', scalar_items (citing_publication_date r)),
      (''cited_id'', cited_id r),
      (''cited_publication_date'', scalar_items (cited_publication_date r))]"

text \<open>A row of the table is an object of one of the two classes.\<close>

datatype row = Metadata MetadataRow | Citations CitationsRow

fun flat_serialise :: "row \<Rightarrow> (string \<times> string list) list" where
  "flat_serialise (Metadata r) = MetadataRow_flat_serialise r"
| "flat_serialise (Citations r) = CitationsRow_flat_serialise r"

section \<open>interface/gui.py\<close>

subsection \<open>model\_row\_default\<close>

record item =
  raw :: string
  item_id :: string
  issues :: "string list"

type_synonym fields = "(string \<times> item list) list"

record row_model =
  contains_issue :: bool
  row_idx :: int
  row_fields :: fields

text \<open>
  The body of the loop over the fields: the list \<^verbatim>\<open>field_value_model\<close> built for one
  field label and its flattened items.
\<close>

definition field_value_model :: "int \<Rightarrow> string \<Rightarrow> string list \<Rightarrow> item list" where
  "field_value_model idx field_label items_in_field =
     (if items_in_field = []
      then [\<lparr>raw = [], item_id = str_int idx @ ''-'' @ field_label @ ''-empty'', issues = []\<rparr>]
      else map (\<lambda>(item_idx, it).
                  \<lparr>raw = it,
                   item_id = str_int idx @ ''-'' @ field_label @ ''-'' @ str_nat item_idx,
                   issues = []\<rparr>)
               (enumerate 0 items_in_field))"

text \<open>
  \<^verbatim>\<open>d[k] = v\<close> on an association list is \<^const>\<open>AList.update\<close>: the value is replaced
  where the key stands, or the pair is added at the end.
\<close>

definition model_row_default :: "row \<Rightarrow> int \<Rightarrow> row_model" where
  "model_row_default r idx =
     \<lparr>contains_issue = False,
      row_idx = idx,
      row_fields = foldl (\<lambda>fs (field_label, items_in_field).
                        AList.update field_label (field_value_model idx field_label items_in_field) fs)
                     [] (flat_serialise r)\<rparr>"

subsection \<open>enrich\_row\<close>

text \<open>
  An error object of the report. \<open>position_table\<close> is
  \<^verbatim>\<open>error_obj['position']['table']\<close>: for each row key (a string, as JSON object keys
  are) the field labels with their item indexes, \<open>None\<close> for JSON \<^verbatim>\<open>null\<close>.
\<close>

type_synonym field_info = "(string \<times> int list option) list"

record error_obj =
  message :: string
  error_label :: string
  error_type :: string
  position_table :: "(string \<times> field_info) list"

text \<open>Lines 116 and 117: the identifier is appended unless the item has it already.\<close>

definition add_issue :: "string \<Rightarrow> item \<Rightarrow> item" where
  "add_issue err_id data_item =
     (if err_id \<notin> set (issues data_item)
      then data_item\<lparr>issues := issues data_item @ [err_id]\<rparr>
      else data_item)"

text \<open>
  The loop over \<^verbatim>\<open>items_indexes\<close> (lines 114 to 117). Each round looks the field label up
  in \<^verbatim>\<open>modeled_row['fields']\<close> (\<^verbatim>\<open>KeyError\<close> when it is missing), then indexes the list
  of items (\<^verbatim>\<open>IndexError\<close>), then changes that item in place.
\<close>

fun enrich_items :: "string \<Rightarrow> string \<Rightarrow> int list \<Rightarrow> fields \<Rightarrow> error + fields" where
  "enrich_items err_id field_label [] fs = Inr fs"
| "enrich_items err_id field_label (item_idx # rest) fs =
     (case map_of fs field_label of
        None \<Rightarrow> Inl (KeyError field_label)
      | Some its \<Rightarrow>
          (case py_index its item_idx of
             Inl e \<Rightarrow> Inl e
           | Inr p \<Rightarrow>
               enrich_items err_id field_label rest
                 (AList.update field_label (its[p := add_issue err_id (its ! p)]) fs)))"

text \<open>
  The loop over \<^verbatim>\<open>field_info.items()\<close> (lines 108 to 117); \<^verbatim>\<open>None\<close> stands for the
  index list \<^verbatim>\<open>[0]\<close>.
\<close>

fun enrich_field_info :: "string \<Rightarrow> field_info \<Rightarrow> fields \<Rightarrow> error + fields" where
  "enrich_field_info err_id [] fs = Inr fs"
| "enrich_field_info err_id ((field_label, items_indexes) # rest) fs =
     (case enrich_items err_id field_label
             (case items_indexes of None \<Rightarrow> [0] | Some idxs \<Rightarrow> idxs) fs of
        Inl e \<Rightarrow> Inl e
      | Inr fs' \<Rightarrow> enrich_field_info err_id rest fs')"

text \<open>
  The loop over \<^verbatim>\<open>error_obj['position']['table'].items()\<close> (line 107). The loop
  variable \<^verbatim>\<open>row_idx\<close> is not read in the body.
\<close>

fun enrich_table :: "string \<Rightarrow> (string \<times> field_info) list \<Rightarrow> fields \<Rightarrow> error + fields" where
  "enrich_table err_id [] fs = Inr fs"
| "enrich_table err_id ((row_key, field_info) # rest) fs =
     (case enrich_field_info err_id field_info fs of
        Inl e \<Rightarrow> Inl e
      | Inr fs' \<Rightarrow> enrich_table err_id rest fs')"

definition enrich_row :: "row_model \<Rightarrow> error_obj \<Rightarrow> string \<Rightarrow> error + row_model" where
  "enrich_row modeled_row error_obj err_id =
     (case enrich_table err_id (position_table error_obj) (row_fields modeled_row) of
        Inl e \<Rightarrow> Inl e
      | Inr fs \<Rightarrow> Inr (modeled_row\<lparr>row_fields := fs, contains_issue := True\<rparr>))"


subsection \<open>generate\_error\_colors\<close>

text \<open>
  \<^verbatim>\<open>'{:02x}'.format(n)\<close> for an integer: lower-case hexadecimal digits, padded with
  zeros to two characters; a negative number has a minus sign, which counts for the width.
\<close>

definition hex_digit :: "nat \<Rightarrow> char" where
  "hex_digit d = ''0123456789abcdef'' ! d"

fun hex_nat :: "nat \<Rightarrow> string" where
  "hex_nat n = (if n < 16 then [hex_digit n] else hex_nat (n div 16) @ [hex_digit (n mod 16)])"

declare hex_nat.simps [simp del]

definition format_02x :: "int \<Rightarrow> string" where
  "format_02x n =
     (if n < 0 then CHR ''-'' # hex_nat (nat (- n))
      else replicate (2 - length (hex_nat (nat n))) CHR ''0'' @ hex_nat (nat n))"

definition hex_color :: "int \<times> int \<times> int \<Rightarrow> string" where
  "hex_color rgb = (case rgb of (r, g, b) \<Rightarrow> CHR ''#'' # format_02x r @ format_02x g @ format_02x b)"

text \<open>
  A Python set of strings is a list without duplicates; the order of the list stands for
  the order in which the set hands out its elements, which Python does not specify.
  \<open>set_pop\<close> removes one element, chosen by the parameter \<open>pick\<close> (any function will do:
  its result is taken modulo the size); on the empty set it raises \<^verbatim>\<open>KeyError\<close>.
\<close>

definition set_add :: "string \<Rightarrow> string list \<Rightarrow> string list" where
  "set_add x xs = (if x \<in> set xs then xs else xs @ [x])"

definition set_pop :: "(string list \<Rightarrow> nat) \<Rightarrow> string list \<Rightarrow> error + (string \<times> string list)" where
  "set_pop pick xs =
     (if xs = [] then Inl (KeyError ''pop from an empty set'')
      else let x = xs ! (pick xs mod length xs) in Inr (x, remove1 x xs))"

text \<open>
  The random numbers, \<^verbatim>\<open>colorsys.hsv_to_rgb\<close> and the conversions \<^verbatim>\<open>int(r * 255)\<close> are
  floating-point computations of the standard library. They enter the model through the
  parameter \<open>rnd\<close>: \<open>rnd k\<close> is the triple of integers that round \<open>k\<close> of the loop
  formats (counting from 0). The loop has no bound other than its condition, so the model
  is a partial function: \<open>None\<close> when the loop never ends.
\<close>

partial_function (option) colors_loop ::
  "(nat \<Rightarrow> int \<times> int \<times> int) \<Rightarrow> nat \<Rightarrow> nat \<Rightarrow> string list \<Rightarrow> string list option" where
  "colors_loop rnd n k colors =
     (if length colors < n then colors_loop rnd n (Suc k) (set_add (hex_color (rnd k)) colors)
      else Some colors)"

declare colors_loop.simps [code]

definition generate_error_colors :: "(nat \<Rightarrow> int \<times> int \<times> int) \<Rightarrow> nat \<Rightarrow> string list option" where
  "generate_error_colors rnd n = colors_loop rnd n 0 []"

subsection \<open>map\_errors\_to\_data\<close>

record error_info =
  info_message :: string
  label :: string
  level :: string
  color :: string

type_synonym errors = "(string \<times> error_info) list"

text \<open>\<^verbatim>\<open>[int(k) for k in error_obj['position']['table'].keys()]\<close> (line 159).\<close>

fun int_keys :: "string list \<Rightarrow> error + int list" where
  "int_keys [] = Inr []"
| "int_keys (k # ks) =
     (case py_int k of
        Inl e \<Rightarrow> Inl e
      | Inr i \<Rightarrow> (case int_keys ks of Inl e \<Rightarrow> Inl e | Inr is \<Rightarrow> Inr (i # is)))"

text \<open>
  The loop over \<^verbatim>\<open>invalid_rows_indexes\<close> (lines 160 and 161): \<^verbatim>\<open>out_data[i]\<close> is read
  (\<^verbatim>\<open>IndexError\<close>), enriched with the whole error object, and stored at the same place.
\<close>

fun enrich_rows :: "int list \<Rightarrow> error_obj \<Rightarrow> string \<Rightarrow> row_model list \<Rightarrow> error + row_model list" where
  "enrich_rows [] error_obj err_id out_data = Inr out_data"
| "enrich_rows (i # rest) error_obj err_id out_data =
     (case py_index out_data i of
        Inl e \<Rightarrow> Inl e
      | Inr p \<Rightarrow>
          (case enrich_row (out_data ! p) error_obj err_id of
             Inl e \<Rightarrow> Inl e
           | Inr m \<Rightarrow> enrich_rows rest error_obj err_id (out_data[p := m])))"

text \<open>The loop over \<^verbatim>\<open>enumerate(report)\<close> (lines 147 to 161).\<close>

fun errors_loop ::
  "(string list \<Rightarrow> nat) \<Rightarrow> string \<Rightarrow> (nat \<times> error_obj) list \<Rightarrow> string list \<Rightarrow>
   row_model list \<Rightarrow> errors \<Rightarrow> error + (row_model list \<times> errors)" where
  "errors_loop pick table_type [] colors out_data out_errors = Inr (out_data, out_errors)"
| "errors_loop pick table_type ((err_idx, error_obj) # rest) colors out_data out_errors =
     (let err_id = table_type @ ''-'' @ str_nat err_idx in
      case set_pop pick colors of
        Inl e \<Rightarrow> Inl e
      | Inr (c, colors') \<Rightarrow>
          (let out_errors' =
                 AList.update err_id
                   \<lparr>info_message = message error_obj, label = error_label error_obj,
                    level = error_type error_obj, color = c\<rparr> out_errors
           in case int_keys (map fst (position_table error_obj)) of
                Inl e \<Rightarrow> Inl e
              | Inr invalid_rows_indexes \<Rightarrow>
                  (case enrich_rows invalid_rows_indexes error_obj err_id out_data of
                     Inl e \<Rightarrow> Inl e
                   | Inr out_data' \<Rightarrow>
                       errors_loop pick table_type rest colors' out_data' out_errors')))"

fun is_CitationsRow :: "row \<Rightarrow> bool" where
  "is_CitationsRow (Citations r) = True"
| "is_CitationsRow (Metadata r) = False"

text \<open>
  The result is \<open>None\<close> when the call does not return (the allocation of the colours
  does not end), \<open>Some (Inl e)\<close> when it raises \<open>e\<close>, and \<open>Some (Inr (out_data,
  out_errors))\<close> when it returns. \<^verbatim>\<open>data[0]\<close> raises \<^verbatim>\<open>IndexError\<close> on the empty list.
\<close>

definition map_errors_to_data ::
  "(nat \<Rightarrow> int \<times> int \<times> int) \<Rightarrow> (string list \<Rightarrow> nat) \<Rightarrow> row list \<Rightarrow> error_obj list \<Rightarrow>
   (error + (row_model list \<times> errors)) option" where
  "map_errors_to_data rnd pick data report =
     (let out_data = map (\<lambda>(idx, r). model_row_default r (int idx)) (enumerate 0 data) in
      case data of
        [] \<Rightarrow> Some (Inl IndexError)
      | row0 # _ \<Rightarrow>
          (let table_type = (if is_CitationsRow row0 then ''cits'' else ''meta'') in
           case generate_error_colors rnd (length report) of
             None \<Rightarrow> None
           | Some colors \<Rightarrow>
               Some (errors_loop pick table_type (enumerate 0 report) colors out_data [])))"

section \<open>Notions used to state the properties\<close>

text \<open>
  The items of a row model, over all its fields, and whether one of them has an issue.
\<close>

definition items_of :: "row_model \<Rightarrow> item list" where
  "items_of m = concat (map snd (row_fields m))"

definition row_has_issue :: "row_model \<Rightarrow> bool" where
  "row_has_issue m = list_ex (\<lambda>it. issues it \<noteq> []) (items_of m)"

text \<open>
  A report entry lists items when every field map of its position table has at least one
  field and no field of it has the empty list of item indexes (a \<^verbatim>\<open>null\<close> entry stands
  for \<^verbatim>\<open>[0]\<close> and lists an item).
\<close>

definition lists_items :: "error_obj \<Rightarrow> bool" where
  "lists_items eo =
     list_all (\<lambda>(k, fi). fi \<noteq> [] \<and> list_all (\<lambda>(f, io). io \<noteq> Some []) fi) (position_table eo)"


section \<open>Auxiliary facts\<close>

subsection \<open>Decimal numerals and association lists\<close>

lemma str_nat_nonempty: "str_nat n \<noteq> []"
  by (subst str_nat.simps) simp

lemma digit_char_inj: "a < 10 \<Longrightarrow> b < 10 \<Longrightarrow> digit_char a = digit_char b \<Longrightarrow> a = b"
proof -
  assume a: "a < 10" and b: "b < 10" and e: "digit_char a = digit_char b"
  have "of_char (digit_char a) = (48 + a)" using a by (simp add: digit_char_def)
  moreover have "of_char (digit_char b) = (48 + b)" using b by (simp add: digit_char_def)
  ultimately show "a = b" using e by (metis add_left_cancel)
qed

lemma str_nat_inj: "str_nat m = str_nat n \<Longrightarrow> m = n"
proof (induction m arbitrary: n rule: str_nat.induct)
  case (1 m)
  show ?case
  proof (cases "m < 10")
    case mlt: True
    show ?thesis
    proof (cases "n < 10")
      case True
      with mlt "1.prems" show ?thesis
        by (simp add: str_nat.simps[of m] str_nat.simps[of n] digit_char_inj)
    next
      case False
      with mlt "1.prems" show ?thesis
        by (simp add: str_nat.simps[of m] str_nat.simps[of n] str_nat_nonempty str_nat_nonempty[symmetric])
    qed
  next
    case mge: False
    show ?thesis
    proof (cases "n < 10")
      case True
      with mge "1.prems" show ?thesis
        by (simp add: str_nat.simps[of m] str_nat.simps[of n] str_nat_nonempty str_nat_nonempty[symmetric])
    next
      case False
      with mge "1.prems" have e: "str_nat (m div 10) = str_nat (n div 10)"
        and d: "digit_char (m mod 10) = digit_char (n mod 10)"
        by (simp_all add: str_nat.simps[of m] str_nat.simps[of n])
      from "1.IH"[OF mge e] have "m div 10 = n div 10" .
      moreover from d have "m mod 10 = n mod 10" by (intro digit_char_inj) simp_all
      ultimately show ?thesis by (metis div_mult_mod_eq)
    qed
  qed
qed

lemma dash_cancel:
  "c \<notin> set f \<Longrightarrow> c \<notin> set g \<Longrightarrow> f @ c # x = g @ c # y \<Longrightarrow> f = g \<and> x = y"
proof (induction f arbitrary: g)
  case Nil
  then show ?case by (cases g) auto
next
  case (Cons a f)
  then show ?case by (cases g) auto
qed

lemma update_fresh: "k \<notin> fst ` set al \<Longrightarrow> AList.update k v al = al @ [(k, v)]"
  by (induction al) auto

lemma foldl_update_distinct:
  "distinct (map fst kvs) \<Longrightarrow> fst ` set acc \<inter> fst ` set kvs = {} \<Longrightarrow>
   foldl (\<lambda>fs (k, v). AList.update k (g k v) fs) acc kvs = acc @ map (\<lambda>(k, v). (k, g k v)) kvs"
proof (induction kvs arbitrary: acc)
  case Nil
  then show ?case by simp
next
  case (Cons kv kvs)
  obtain k v where kv: "kv = (k, v)" by (cases kv)
  have fresh: "k \<notin> fst ` set acc" using Cons.prems(2) kv by auto
  have d: "distinct (map fst kvs)" and nk: "k \<notin> fst ` set kvs" using Cons.prems(1) kv by auto
  have disj: "fst ` set (acc @ [(k, g k v)]) \<inter> fst ` set kvs = {}"
    using Cons.prems(2) nk kv by auto
  show ?case
    using Cons.IH[OF d disj] by (simp add: kv update_fresh[OF fresh])
qed

lemma flat_serialise_distinct: "distinct (map fst (flat_serialise r))"
  by (cases r) (simp_all add: MetadataRow_flat_serialise_def CitationsRow_flat_serialise_def)

lemma flat_serialise_no_dash: "(f, xs) \<in> set (flat_serialise r) \<Longrightarrow> CHR ''-'' \<notin> set f"
  by (cases r) (auto simp: MetadataRow_flat_serialise_def CitationsRow_flat_serialise_def)

lemma model_row_fields:
  "row_fields (model_row_default r idx) =
     map (\<lambda>(f, xs). (f, field_value_model idx f xs)) (flat_serialise r)"
  using foldl_update_distinct[OF flat_serialise_distinct, of "[]" r "field_value_model idx"]
  by (simp add: model_row_default_def)

subsection \<open>The default model of a row\<close>

lemma field_value_model_empty:
  "field_value_model idx f [] =
     [\<lparr>raw = [], item_id = str_int idx @ ''-'' @ f @ ''-empty'', issues = []\<rparr>]"
  by (simp add: field_value_model_def)

lemma field_value_model_length:
  "xs \<noteq> [] \<Longrightarrow> length (field_value_model idx f xs) = length xs"
  by (simp add: field_value_model_def)

lemma field_value_model_nth:
  "i < length xs \<Longrightarrow>
   field_value_model idx f xs ! i =
     \<lparr>raw = xs ! i, item_id = str_int idx @ ''-'' @ f @ ''-'' @ str_nat i, issues = []\<rparr>"
  by (auto simp: field_value_model_def nth_enumerate_eq)

lemma field_value_model_ne: "field_value_model idx f xs \<noteq> []"
  by (cases xs) (simp_all add: field_value_model_def)

lemma field_value_model_issues:
  "it \<in> set (field_value_model idx f xs) \<Longrightarrow> issues it = []"
  by (auto simp: field_value_model_def split: if_splits)

lemma field_value_model_id_form:
  "it \<in> set (field_value_model idx f xs) \<Longrightarrow>
   \<exists>sfx. item_id it = str_int idx @ ''-'' @ f @ ''-'' @ sfx"
  by (auto simp: field_value_model_def split: if_splits)

lemma map_enumerate_fst:
  "map (\<lambda>p. g (fst p)) (enumerate 0 xs) = map g [0..<length xs]"
  by (rule nth_equalityI) (simp_all add: nth_enumerate_eq)

lemma field_value_model_ids:
  "xs \<noteq> [] \<Longrightarrow>
   map item_id (field_value_model idx f xs) =
     map (\<lambda>i. str_int idx @ ''-'' @ f @ ''-'' @ str_nat i) [0..<length xs]"
  using map_enumerate_fst[of "\<lambda>i. str_int idx @ ''-'' @ f @ ''-'' @ str_nat i" xs]
  by (simp add: field_value_model_def comp_def case_prod_unfold)

lemma field_value_model_ids_distinct:
  "distinct (map item_id (field_value_model idx f xs))"
proof (cases "xs = []")
  case True
  then show ?thesis by (simp add: field_value_model_def)
next
  case False
  have "distinct (map (\<lambda>i. str_int idx @ ''-'' @ f @ ''-'' @ str_nat i) [0..<length xs])"
    by (auto simp: distinct_map inj_on_def dest: str_nat_inj)
  then show ?thesis by (simp only: field_value_model_ids[OF False])
qed

lemma ids_of_fields_differ:
  assumes "CHR ''-'' \<notin> set f" "CHR ''-'' \<notin> set g" "f \<noteq> g"
    and "a \<in> set (field_value_model idx f xs)" "b \<in> set (field_value_model idx g ys)"
  shows "item_id a \<noteq> item_id b"
proof
  assume e: "item_id a = item_id b"
  from assms(4) obtain s where s: "item_id a = str_int idx @ ''-'' @ f @ ''-'' @ s"
    using field_value_model_id_form by blast
  from assms(5) obtain t where t: "item_id b = str_int idx @ ''-'' @ g @ ''-'' @ t"
    using field_value_model_id_form by blast
  from e s t have "f @ CHR ''-'' # s = g @ CHR ''-'' # t" by simp
  from dash_cancel[OF assms(1,2) this] assms(3) show False by simp
qed

lemma all_ids_distinct:
  "distinct (map fst fl) \<Longrightarrow> (\<forall>(f, xs) \<in> set fl. CHR ''-'' \<notin> set f) \<Longrightarrow>
   distinct (concat (map (\<lambda>(f, xs). map item_id (field_value_model idx f xs)) fl))"
proof (induction fl)
  case Nil
  then show ?case by simp
next
  case (Cons p fl)
  obtain f xs where p: "p = (f, xs)" by (cases p)
  have nf: "CHR ''-'' \<notin> set f" using Cons.prems(2) p by simp
  have IH: "distinct (concat (map (\<lambda>(f, xs). map item_id (field_value_model idx f xs)) fl))"
    using Cons by simp
  have disj: "item_id a \<noteq> item_id b"
    if "a \<in> set (field_value_model idx f xs)" "(g, ys) \<in> set fl"
       "b \<in> set (field_value_model idx g ys)" for a b g ys
  proof -
    have "g \<noteq> f" using Cons.prems(1) p that(2) by (auto simp: image_iff)
    moreover have "CHR ''-'' \<notin> set g" using Cons.prems(2) that(2) by auto
    ultimately show ?thesis using ids_of_fields_differ[OF nf _ _ that(1) that(3)] by blast
  qed
  show ?case
    using IH field_value_model_ids_distinct[of idx f xs] disj
    by (auto simp: p)
qed

lemma model_ids_distinct:
  "distinct (concat (map (\<lambda>(f, its). map item_id its) (row_fields (model_row_default r idx))))"
proof -
  have "(\<forall>(f, xs) \<in> set (flat_serialise r). CHR ''-'' \<notin> set f)"
    using flat_serialise_no_dash by blast
  from all_ids_distinct[OF flat_serialise_distinct this, of idx]
  show ?thesis by (simp add: model_row_fields comp_def case_prod_unfold)
qed

lemma map_of_model_row:
  "(f, xs) \<in> set (flat_serialise r) \<Longrightarrow>
   map_of (row_fields (model_row_default r idx)) f = Some (field_value_model idx f xs)"
proof -
  assume m: "(f, xs) \<in> set (flat_serialise r)"
  have "distinct (map fst (row_fields (model_row_default r idx)))"
    using flat_serialise_distinct[of r] by (simp add: model_row_fields comp_def case_prod_unfold)
  moreover have "(f, field_value_model idx f xs) \<in> set (row_fields (model_row_default r idx))"
    using m by (force simp: model_row_fields)
  ultimately show ?thesis by (rule map_of_is_SomeI)
qed

subsection \<open>Enrichment changes items only by adding the identifier\<close>

lemma py_index_bound: "py_index xs i = Inr p \<Longrightarrow> p < length xs"
  by (auto simp: py_index_def split: if_splits)

lemma py_index_Inr_iff:
  "(\<exists>p. py_index xs i = Inr p) \<longleftrightarrow> - int (length xs) \<le> i \<and> i < int (length xs)"
  by (auto simp: py_index_def)

lemma add_issue_idem: "add_issue e (add_issue e it) = add_issue e it"
  by (simp add: add_issue_def)

lemma add_issue_issues:
  "issues (add_issue e it) = (if e \<in> set (issues it) then issues it else issues it @ [e])"
  by (simp add: add_issue_def)


lemma add_issue_raw: "raw (add_issue e it) = raw it" "item_id (add_issue e it) = item_id it"
  by (simp_all add: add_issue_def)

definition grew :: "string \<Rightarrow> item \<Rightarrow> item \<Rightarrow> bool" where
  "grew e a b = (b = a \<or> b = add_issue e a)"

definition fields_rel :: "(item \<Rightarrow> item \<Rightarrow> bool) \<Rightarrow> fields \<Rightarrow> fields \<Rightarrow> bool" where
  "fields_rel R fs fs' =
     list_all2 (\<lambda>p q. fst p = fst q \<and> list_all2 R (snd p) (snd q)) fs fs'"

lemma grew_refl: "grew e a a"
  by (simp add: grew_def)

lemma grew_trans: "grew e a b \<Longrightarrow> grew e b c \<Longrightarrow> grew e a c"
  by (auto simp: grew_def add_issue_idem)

lemma fields_rel_refl: "(\<And>x. R x x) \<Longrightarrow> fields_rel R fs fs"
  by (simp add: fields_rel_def list_all2_refl)

lemma fields_rel_trans:
  assumes "\<And>a b c. R a b \<Longrightarrow> R b c \<Longrightarrow> R a c"
  shows "fields_rel R fs gs \<Longrightarrow> fields_rel R gs hs \<Longrightarrow> fields_rel R fs hs"
  unfolding fields_rel_def
proof (erule list_all2_trans[rotated], assumption)
  fix p q r :: "string \<times> item list"
  assume "fst p = fst q \<and> list_all2 R (snd p) (snd q)" "fst q = fst r \<and> list_all2 R (snd q) (snd r)"
  then show "fst p = fst r \<and> list_all2 R (snd p) (snd r)"
    using assms list_all2_trans[of R R R "snd p" "snd q" "snd r"] by auto
qed

lemma fields_rel_mono: "(\<And>a b. R a b \<Longrightarrow> S a b) \<Longrightarrow> fields_rel R fs gs \<Longrightarrow> fields_rel S fs gs"
  unfolding fields_rel_def by (erule list_all2_mono) (auto elim: list_all2_mono)

lemma list_update_rel:
  "(\<And>x. R x x) \<Longrightarrow> p < length its \<Longrightarrow> R (its ! p) x \<Longrightarrow> list_all2 R its (its[p := x])"
  by (auto simp: list_all2_conv_all_nth nth_list_update)

lemma update_rel:
  "(\<And>x. R x x) \<Longrightarrow> map_of fs f = Some its \<Longrightarrow> list_all2 R its its' \<Longrightarrow>
   fields_rel R fs (AList.update f its' fs)"
proof (induction fs)
  case Nil
  then show ?case by simp
next
  case (Cons p fs)
  then show ?case
    by (cases p) (auto simp: fields_rel_def list_all2_refl)
qed

lemma fields_rel_keys: "fields_rel R fs gs \<Longrightarrow> map fst gs = map fst fs"
  unfolding fields_rel_def by (induction fs gs rule: list_all2_induct) auto


lemma enrich_items_rel:
  "enrich_items e f idxs fs = Inr fs' \<Longrightarrow> fields_rel (grew e) fs fs'"
proof (induction idxs arbitrary: fs)
  case Nil
  then show ?case by (simp add: fields_rel_refl grew_refl)
next
  case (Cons i idxs)
  from Cons.prems obtain its p where
    m: "map_of fs f = Some its" and p: "py_index its i = Inr p"
    and r: "enrich_items e f idxs (AList.update f (its[p := add_issue e (its ! p)]) fs) = Inr fs'"
    by (auto split: option.splits sum.splits)
  have "list_all2 (grew e) its (its[p := add_issue e (its ! p)])"
    by (rule list_update_rel) (simp_all add: grew_def py_index_bound[OF p])
  then have "fields_rel (grew e) fs (AList.update f (its[p := add_issue e (its ! p)]) fs)"
    using update_rel[of "grew e", OF _ m] by (simp add: grew_refl)
  with Cons.IH[OF r] show ?case using fields_rel_trans[of "grew e"] grew_trans by blast
qed

lemma enrich_field_info_rel:
  "enrich_field_info e fi fs = Inr fs' \<Longrightarrow> fields_rel (grew e) fs fs'"
proof (induction fi arbitrary: fs)
  case Nil
  then show ?case by (simp add: fields_rel_refl grew_refl)
next
  case (Cons a fi)
  obtain f io where a: "a = (f, io)" by (cases a)
  from Cons.prems a obtain fs1 where
    s1: "enrich_items e f (case io of None \<Rightarrow> [0] | Some idxs \<Rightarrow> idxs) fs = Inr fs1"
    and s2: "enrich_field_info e fi fs1 = Inr fs'"
    by (auto split: sum.splits)
  from enrich_items_rel[OF s1] Cons.IH[OF s2] show ?case
    using fields_rel_trans[of "grew e"] grew_trans by blast
qed

lemma enrich_table_rel:
  "enrich_table e tb fs = Inr fs' \<Longrightarrow> fields_rel (grew e) fs fs'"
proof (induction tb arbitrary: fs)
  case Nil
  then show ?case by (simp add: fields_rel_refl grew_refl)
next
  case (Cons a tb)
  obtain k fi where a: "a = (k, fi)" by (cases a)
  from Cons.prems a obtain fs1 where
    s1: "enrich_field_info e fi fs = Inr fs1" and s2: "enrich_table e tb fs1 = Inr fs'"
    by (auto split: sum.splits)
  from enrich_field_info_rel[OF s1] Cons.IH[OF s2] show ?case
    using fields_rel_trans[of "grew e"] grew_trans by blast
qed

lemma enrich_row_props:
  "enrich_row m eo e = Inr m' \<Longrightarrow>
   contains_issue m' \<and> row_idx m' = row_idx m \<and> fields_rel (grew e) (row_fields m) (row_fields m')"
  by (auto simp: enrich_row_def split: sum.splits dest: enrich_table_rel)

subsection \<open>Rows through the loops\<close>

definition row_rel :: "string \<Rightarrow> row_model \<Rightarrow> row_model \<Rightarrow> bool" where
  "row_rel e m m' =
     (m' = m \<or> (contains_issue m' \<and> row_idx m' = row_idx m \<and>
                 fields_rel (grew e) (row_fields m) (row_fields m')))"

lemma row_rel_refl: "row_rel e m m"
  by (simp add: row_rel_def)

lemma row_rel_trans: "row_rel e a b \<Longrightarrow> row_rel e b c \<Longrightarrow> row_rel e a c"
  unfolding row_rel_def
  using fields_rel_trans[of "grew e"] grew_trans by metis

lemma enrich_rows_rel:
  "enrich_rows is eo e out = Inr out' \<Longrightarrow> list_all2 (row_rel e) out out'"
proof (induction "is" arbitrary: out)
  case Nil
  then show ?case by (simp add: list_all2_refl row_rel_refl)
next
  case (Cons i "is")
  from Cons.prems obtain p m where
    p: "py_index out i = Inr p" and m: "enrich_row (out ! p) eo e = Inr m"
    and r: "enrich_rows is eo e (out[p := m]) = Inr out'"
    by (auto split: sum.splits)
  have "row_rel e (out ! p) m"
    using enrich_row_props[OF m] by (simp add: row_rel_def)
  then have "list_all2 (row_rel e) out (out[p := m])"
    by (intro list_update_rel) (simp_all add: row_rel_refl py_index_bound[OF p])
  with Cons.IH[OF r] show ?case
    using list_all2_trans[of "row_rel e" "row_rel e" "row_rel e"] row_rel_trans by blast
qed

lemma int_keys_Inr:
  "int_keys ks = Inr is \<Longrightarrow> list_all2 (\<lambda>k i. py_int k = Inr i) ks is"
  by (induction ks arbitrary: "is") (auto split: sum.splits)

text \<open>
  A relation between some fixed list and the rows that every enrichment step keeps is kept
  by the whole loop over the report.
\<close>

lemma errors_loop_keeps:
  assumes step: "\<And>e a m m'. K a m \<Longrightarrow> row_rel e m m' \<Longrightarrow> K a m'"
  shows "list_all2 K as out \<Longrightarrow>
         errors_loop pick tt es colors out errs = Inr (out', errs') \<Longrightarrow> list_all2 K as out'"
proof (induction es arbitrary: colors out errs)
  case Nil
  then show ?case by simp
next
  case (Cons a es)
  obtain idx eo where a: "a = (idx, eo)" by (cases a)
  from Cons.prems(2) a obtain c colors1 idxs out1 errs1 where
    r: "enrich_rows idxs eo (tt @ ''-'' @ str_nat idx) out = Inr out1"
    and l: "errors_loop pick tt es colors1 out1 errs1 = Inr (out', errs')"
    by (auto simp: Let_def split: sum.splits prod.splits)
  have "list_all2 K as out1"
  proof (rule list_all2_all_nthI)
    show "length as = length out1"
      using Cons.prems(1) enrich_rows_rel[OF r] by (simp add: list_all2_conv_all_nth)
  next
    fix n assume n: "n < length as"
    have "K (as ! n) (out ! n)" using Cons.prems(1) n by (simp add: list_all2_conv_all_nth)
    moreover have "row_rel (tt @ ''-'' @ str_nat idx) (out ! n) (out1 ! n)"
      using Cons.prems(1) enrich_rows_rel[OF r] n by (simp add: list_all2_conv_all_nth)
    ultimately show "K (as ! n) (out1 ! n)" by (rule step)
  qed
  from Cons.IH[OF this l] show ?case .
qed

lemma errors_loop_length:
  "errors_loop pick tt es colors out errs = Inr (out', errs') \<Longrightarrow> length out' = length out"
  using errors_loop_keeps[of "\<lambda>a m. True" out out pick tt es colors errs out' errs']
  by (simp add: list_all2_conv_all_nth)

subsection \<open>A run that returns has addressed existing rows and items only\<close>




lemma py_index_update: "py_index (xs[p := x]) i = py_index xs i"
  by (simp add: py_index_def)













lemma py_index_length: "length xs = length ys \<Longrightarrow> py_index xs i = py_index ys i"
  by (simp add: py_index_def)


definition default_models :: "row list \<Rightarrow> row_model list" where
  "default_models data = map (\<lambda>(idx, r). model_row_default r (int idx)) (enumerate 0 data)"

lemma default_models_length: "length (default_models data) = length data"
  by (simp add: default_models_def)

lemma default_models_nth:
  "p < length data \<Longrightarrow> default_models data ! p = model_row_default (data ! p) (int p)"
  by (simp add: default_models_def nth_enumerate_eq)

lemma map_errors_to_data_Inr:
  "map_errors_to_data rnd pick data report = Some (Inr res) \<Longrightarrow>
   \<exists>row0 rest colors. data = row0 # rest \<and>
      generate_error_colors rnd (length report) = Some colors \<and>
      errors_loop pick (if is_CitationsRow row0 then ''cits'' else ''meta'')
        (enumerate 0 report) colors (default_models data) [] = Inr res"
  by (auto simp: map_errors_to_data_def default_models_def Let_def
           split: list.splits option.splits)

lemma in_set_enumerate: "x \<in> set xs \<Longrightarrow> \<exists>i. (i, x) \<in> set (enumerate n xs)"
proof -
  assume "x \<in> set xs"
  then obtain i where "i < length xs" "xs ! i = x" by (auto simp: in_set_conv_nth)
  then have "(n + i, x) \<in> set (enumerate n xs)" by (simp add: in_set_enumerate_eq)
  then show ?thesis by blast
qed


subsection \<open>Facts kept by the whole pass\<close>

lemma list_all2_all:
  assumes "\<And>a b. R a b \<Longrightarrow> P a \<Longrightarrow> P b"
  shows "list_all2 R xs ys \<Longrightarrow> list_all P xs \<Longrightarrow> list_all P ys"
  by (induction xs ys rule: list_all2_induct) (auto intro: assms)

lemma fields_rel_all_items:
  assumes "\<And>a b. R a b \<Longrightarrow> P a \<Longrightarrow> P b"
  shows "fields_rel R fs gs \<Longrightarrow> list_all P (concat (map snd fs)) \<Longrightarrow>
         list_all P (concat (map snd gs))"
  unfolding fields_rel_def
proof (induction fs gs rule: list_all2_induct)
  case Nil
  then show ?case by simp
next
  case (Cons p fs q gs)
  have "list_all P (snd q)"
    using Cons.hyps(1) Cons.prems list_all2_all[of R P "snd p" "snd q"] assms by simp
  with Cons show ?case by simp
qed

lemma default_no_issue: "list_all (\<lambda>it. issues it = []) (items_of (model_row_default r idx))"
  by (auto simp: items_of_def model_row_fields list_all_iff dest: field_value_model_issues)

lemma default_models_no_issue:
  "m \<in> set (default_models data) \<Longrightarrow> list_all (\<lambda>it. issues it = []) (items_of m)"
  by (auto simp: default_models_def default_no_issue)

lemma flag_kept:
  "(row_has_issue m \<longrightarrow> contains_issue m) \<Longrightarrow> row_rel e m m' \<Longrightarrow>
   (row_has_issue m' \<longrightarrow> contains_issue m')"
  by (auto simp: row_rel_def)





lemma errors_loop_keeps_ids:
  assumes step: "\<And>idx eo a m m'. (idx, eo) \<in> set es \<Longrightarrow> K a m \<Longrightarrow>
                   row_rel (tt @ ''-'' @ str_nat idx) m m' \<Longrightarrow> K a m'"
  shows "list_all2 K as out \<Longrightarrow>
         errors_loop pick tt es colors out errs = Inr (out', errs') \<Longrightarrow> list_all2 K as out'"
  using step
proof (induction es arbitrary: colors out errs)
  case Nil
  then show ?case by simp
next
  case (Cons a es)
  obtain idx eo where a: "a = (idx, eo)" by (cases a)
  from Cons.prems(2) a obtain c colors1 idxs out1 errs1 where
    r: "enrich_rows idxs eo (tt @ ''-'' @ str_nat idx) out = Inr out1"
    and l: "errors_loop pick tt es colors1 out1 errs1 = Inr (out', errs')"
    by (auto simp: Let_def split: sum.splits prod.splits)
  have "list_all2 K as out1"
  proof (rule list_all2_all_nthI)
    show "length as = length out1"
      using Cons.prems(1) enrich_rows_rel[OF r] by (simp add: list_all2_conv_all_nth)
  next
    fix n assume n: "n < length as"
    have "K (as ! n) (out ! n)" using Cons.prems(1) n by (simp add: list_all2_conv_all_nth)
    moreover have "row_rel (tt @ ''-'' @ str_nat idx) (out ! n) (out1 ! n)"
      using Cons.prems(1) enrich_rows_rel[OF r] n by (simp add: list_all2_conv_all_nth)
    ultimately show "K (as ! n) (out1 ! n)" using Cons.prems(3)[of idx eo] a by simp
  qed
  moreover have "K b m'"
    if "(i, e) \<in> set es" "K b m" "row_rel (tt @ ''-'' @ str_nat i) m m'" for i e b m m'
    using Cons.prems(3)[of i e b m m'] that by simp
  ultimately show ?case using Cons.IH[OF _ l] by blast
qed

lemma errors_loop_keys:
  "errors_loop pick tt (enumerate k es) colors out errs = Inr (out', errs') \<Longrightarrow>
   (\<forall>x \<in> fst ` set errs. \<exists>j<k. x = tt @ ''-'' @ str_nat j) \<Longrightarrow>
   map fst errs' = map fst errs @ map (\<lambda>i. tt @ ''-'' @ str_nat i) [k..<k + length es]"
proof (induction es arbitrary: k colors out errs)
  case Nil
  then show ?case by simp
next
  case (Cons eo es)
  let ?id = "tt @ ''-'' @ str_nat k"
  from Cons.prems(1) obtain c colors1 idxs out1 where
    l: "errors_loop pick tt (enumerate (Suc k) es) colors1 out1
          (AList.update ?id \<lparr>info_message = message eo, label = error_label eo,
                              level = error_type eo, color = c\<rparr> errs) = Inr (out', errs')"
    by (auto simp: Let_def split: sum.splits prod.splits)
  have fresh: "?id \<notin> fst ` set errs"
  proof
    assume "?id \<in> fst ` set errs"
    with Cons.prems(2) obtain j where "j < k" "?id = tt @ ''-'' @ str_nat j" by blast
    then show False using str_nat_inj[of k j] by simp
  qed
  let ?errs1 = "errs @ [(?id, \<lparr>info_message = message eo, label = error_label eo,
                              level = error_type eo, color = c\<rparr>)]"
  have l': "errors_loop pick tt (enumerate (Suc k) es) colors1 out1 ?errs1 = Inr (out', errs')"
    using l by (simp only: update_fresh[OF fresh])
  have "\<forall>x \<in> fst ` set ?errs1. \<exists>j<Suc k. x = tt @ ''-'' @ str_nat j"
    using Cons.prems(2) less_Suc_eq by auto
  from Cons.IH[OF l' this]
  have "map fst errs' = map fst errs @ ?id # map (\<lambda>i. tt @ ''-'' @ str_nat i) [Suc k..<Suc k + length es]"
    by simp
  moreover have "[k..<k + length (eo # es)] = k # [Suc k..<Suc k + length es]"
    by (simp add: upt_conv_Cons del: upt_Suc)
  ultimately show ?case by (simp del: upt_Suc)
qed

lemma grew_issues_subset: "grew e a b \<Longrightarrow> set (issues b) \<subseteq> insert e (set (issues a))"
  by (auto simp: grew_def add_issue_issues split: if_splits)

lemma errors_loop_issue_ids:
  assumes l: "errors_loop pick tt (enumerate 0 report) colors (default_models data) [] =
          Inr (out_data, out_errors)"
  shows "map fst out_errors = map (\<lambda>i. tt @ ''-'' @ str_nat i) [0..<length report]"
    and "m \<in> set out_data \<Longrightarrow> it \<in> set (items_of m) \<Longrightarrow> set (issues it) \<subseteq> fst ` set out_errors"
proof -
  from errors_loop_keys[OF l]
  show keys: "map fst out_errors = map (\<lambda>i. tt @ ''-'' @ str_nat i) [0..<length report]"
    by simp
  define S where "S = fst ` set out_errors"
  let ?K = "\<lambda>(a::row_model) m. list_all (\<lambda>it. set (issues it) \<subseteq> S) (items_of m)"
  have init: "list_all2 ?K (default_models data) (default_models data)"
  proof (rule list_all2_all_nthI)
    fix n assume "n < length (default_models data)"
    then have "list_all (\<lambda>it. issues it = []) (items_of (default_models data ! n))"
      using default_models_no_issue[of "default_models data ! n" data] by simp
    then show "list_all (\<lambda>it. set (issues it) \<subseteq> S) (items_of (default_models data ! n))"
      by (auto simp: list_all_iff)
  qed simp
  have step: "?K a m'"
    if "(idx, eo) \<in> set (enumerate 0 report)" "?K a m" "row_rel (tt @ ''-'' @ str_nat idx) m m'"
    for idx eo a m m'
  proof (cases "m' = m")
    case True
    with that(2) show ?thesis by simp
  next
    case False
    define e where "e = tt @ ''-'' @ str_nat idx"
    from False that(3) have fr: "fields_rel (grew e) (row_fields m) (row_fields m')"
      by (simp add: row_rel_def e_def)
    have "idx < length report" using that(1) by (simp add: in_set_enumerate_eq)
    then have "e \<in> set (map fst out_errors)" unfolding keys e_def by simp
    then have mem: "e \<in> S" by (simp add: S_def)
    have "set (issues y) \<subseteq> S" if "grew e x y" "set (issues x) \<subseteq> S" for x y
      using grew_issues_subset[OF that(1)] that(2) mem by auto
    from fields_rel_all_items[of "grew e" "\<lambda>it. set (issues it) \<subseteq> S", OF this fr] that(2)
    show ?thesis by (simp add: items_of_def)
  qed
  have all: "list_all2 ?K (default_models data) out_data"
    by (rule errors_loop_keeps_ids[where K = ?K, OF step init l])
  show "set (issues it) \<subseteq> fst ` set out_errors"
    if m: "m \<in> set out_data" and it: "it \<in> set (items_of m)"
  proof -
    from m obtain n where "n < length out_data" "m = out_data ! n"
      by (auto simp: in_set_conv_nth)
    with all have "list_all (\<lambda>it. set (issues it) \<subseteq> S) (items_of m)"
      by (simp add: list_all2_conv_all_nth)
    with it show ?thesis by (simp add: list_all_iff S_def)
  qed
qed

lemma map_errors_to_data_ids:
  assumes "map_errors_to_data rnd pick (r # rs) report = Some (Inr (out_data, out_errors))"
  shows "map fst out_errors =
           map (\<lambda>i. (if is_CitationsRow r then ''cits'' else ''meta'') @ ''-'' @ str_nat i)
               [0..<length report]"
    and "m \<in> set out_data \<Longrightarrow> it \<in> set (items_of m) \<Longrightarrow> set (issues it) \<subseteq> fst ` set out_errors"
proof -
  from map_errors_to_data_Inr[OF assms] obtain colors where
    l: "errors_loop pick (if is_CitationsRow r then ''cits'' else ''meta'')
          (enumerate 0 report) colors (default_models (r # rs)) [] =
          Inr (out_data, out_errors)"
    by auto
  from errors_loop_issue_ids(1)[OF l]
  show "map fst out_errors =
           map (\<lambda>i. (if is_CitationsRow r then ''cits'' else ''meta'') @ ''-'' @ str_nat i)
               [0..<length report]" .
  from errors_loop_issue_ids(2)[OF l]
  show "m \<in> set out_data \<Longrightarrow> it \<in> set (items_of m) \<Longrightarrow> set (issues it) \<subseteq> fst ` set out_errors" .
qed


subsection \<open>Scalar fields of a metadata row\<close>

lemma str_nat_0: "str_nat 0 = ''0''"
  by code_simp

lemma map_of_flat_model:
  "map_of (flat_serialise r) f = Some xs \<Longrightarrow>
   map_of (row_fields (model_row_default r idx)) f = Some (field_value_model idx f xs)"
  by (rule map_of_model_row) (rule map_of_SomeD)

lemma field_value_model_single:
  "field_value_model idx f [s] =
     [\<lparr>raw = s, item_id = str_int idx @ ''-'' @ f @ ''-0'', issues = []\<rparr>]"
  by (simp add: field_value_model_def str_nat_0)

lemma scalar_flat:
  "f \<in> set [''title'', ''pub_date'', ''volume'', ''issue'', ''page'', ''type''] \<Longrightarrow>
   map_of (flat_serialise (Metadata (MetadataRow_init raw_row))) f =
     Some (case raw_row f of None \<Rightarrow> [] | Some s \<Rightarrow> [s])"
  by (auto simp: MetadataRow_init_def MetadataRow_flat_serialise_def scalar_items_def
           split: option.splits)

subsection \<open>The whole-field entry\<close>

lemma enrich_field_info_append:
  "enrich_field_info e (a @ b) fs =
     (case enrich_field_info e a fs of Inl x \<Rightarrow> Inl x | Inr fs' \<Rightarrow> enrich_field_info e b fs')"
  by (induction a arbitrary: fs) (auto split: sum.splits)

lemma enrich_null_entry:
  assumes "map_of fs f = Some its" "its \<noteq> []"
  shows "enrich_table e [(k, [(f, None)])] fs =
           Inr (AList.update f (its[0 := add_issue e (its ! 0)]) fs)"
proof -
  have "py_index its 0 = Inr 0" using assms(2) by (simp add: py_index_def)
  with assms(1) show ?thesis by simp
qed

subsection \<open>Which rows are flagged\<close>

lemma int_keys_set:
  "int_keys ks = Inr is \<Longrightarrow> i \<in> set is \<longleftrightarrow> (\<exists>k \<in> set ks. py_int k = Inr i)"
  by (induction ks arbitrary: "is") (auto split: sum.splits)

lemma enrich_rows_flags:
  "enrich_rows is eo e out = Inr out' \<Longrightarrow> p < length out \<Longrightarrow>
   contains_issue (out' ! p) \<longleftrightarrow>
     contains_issue (out ! p) \<or> (\<exists>i \<in> set is. py_index out i = Inr p)"
proof (induction "is" arbitrary: out)
  case Nil
  then show ?case by simp
next
  case (Cons i0 "is")
  from Cons.prems(1) obtain p0 m where
    p0: "py_index out i0 = Inr p0" and m: "enrich_row (out ! p0) eo e = Inr m"
    and r: "enrich_rows is eo e (out[p0 := m]) = Inr out'"
    by (auto split: sum.splits)
  have fm: "contains_issue m" using enrich_row_props[OF m] by simp
  have b: "p0 < length out" using py_index_bound[OF p0] .
  have "contains_issue (out' ! p) \<longleftrightarrow>
     contains_issue (out[p0 := m] ! p) \<or> (\<exists>i \<in> set is. py_index (out[p0 := m]) i = Inr p)"
    using Cons.IH[OF r] Cons.prems(2) by simp
  also have "\<dots> \<longleftrightarrow> (p = p0 \<or> contains_issue (out ! p)) \<or> (\<exists>i \<in> set is. py_index out i = Inr p)"
    using fm b Cons.prems(2) by (auto simp: py_index_update nth_list_update)
  also have "\<dots> \<longleftrightarrow> contains_issue (out ! p) \<or> (\<exists>i \<in> set (i0 # is). py_index out i = Inr p)"
    using p0 by auto
  finally show ?case .
qed

lemma errors_loop_flags:
  "errors_loop pick tt es colors out errs = Inr (out', errs') \<Longrightarrow> p < length out \<Longrightarrow>
   contains_issue (out' ! p) \<longleftrightarrow>
     contains_issue (out ! p) \<or>
     (\<exists>a \<in> set es. \<exists>k \<in> set (map fst (position_table (snd a))).
        \<exists>i. py_int k = Inr i \<and> py_index out i = Inr p)"
proof (induction es arbitrary: colors out errs)
  case Nil
  then show ?case by simp
next
  case (Cons a es)
  obtain idx eo where a: "a = (idx, eo)" by (cases a)
  from Cons.prems(1) a obtain c colors1 idxs out1 errs1 where
    ks: "int_keys (map fst (position_table eo)) = Inr idxs"
    and r: "enrich_rows idxs eo (tt @ ''-'' @ str_nat idx) out = Inr out1"
    and l: "errors_loop pick tt es colors1 out1 errs1 = Inr (out', errs')"
    by (auto simp: Let_def split: sum.splits prod.splits)
  have len: "length out1 = length out"
    using enrich_rows_rel[OF r] by (simp add: list_all2_conv_all_nth)
  have pi: "py_index out1 i = py_index out i" for i
    using py_index_length[OF len] .
  have "contains_issue (out' ! p) \<longleftrightarrow>
     contains_issue (out1 ! p) \<or>
     (\<exists>a \<in> set es. \<exists>k \<in> set (map fst (position_table (snd a))).
        \<exists>i. py_int k = Inr i \<and> py_index out i = Inr p)"
    using Cons.IH[OF l] Cons.prems(2) len by (simp add: pi)
  moreover have "contains_issue (out1 ! p) \<longleftrightarrow>
     contains_issue (out ! p) \<or>
     (\<exists>k \<in> set (map fst (position_table eo)). \<exists>i. py_int k = Inr i \<and> py_index out i = Inr p)"
    using enrich_rows_flags[OF r Cons.prems(2)] int_keys_set[OF ks] by auto
  ultimately have "contains_issue (out' ! p) \<longleftrightarrow>
     contains_issue (out ! p) \<or>
     (\<exists>k \<in> set (map fst (position_table eo)). \<exists>i. py_int k = Inr i \<and> py_index out i = Inr p) \<or>
     (\<exists>a \<in> set es. \<exists>k \<in> set (map fst (position_table (snd a))).
        \<exists>i. py_int k = Inr i \<and> py_index out i = Inr p)"
    by blast
  then show ?case by (simp add: a)
qed

lemma ex_enumerate:
  "(\<exists>a \<in> set (enumerate 0 xs). Q (snd a)) \<longleftrightarrow> (\<exists>x \<in> set xs. Q x)"
proof
  assume "\<exists>a \<in> set (enumerate 0 xs). Q (snd a)"
  then obtain a where a: "a \<in> set (enumerate 0 xs)" "Q (snd a)" by blast
  then have "snd a \<in> set xs" by (auto simp: in_set_enumerate_eq dest: nth_mem)
  with a(2) show "\<exists>x \<in> set xs. Q x" by blast
next
  assume "\<exists>x \<in> set xs. Q x"
  then obtain x where x: "x \<in> set xs" "Q x" by blast
  from in_set_enumerate[OF x(1), of 0] obtain i where "(i, x) \<in> set (enumerate 0 xs)" by blast
  with x(2) show "\<exists>a \<in> set (enumerate 0 xs). Q (snd a)" by force
qed

lemma default_models_unflagged:
  "p < length data \<Longrightarrow> \<not> contains_issue (default_models data ! p)"
  by (simp add: default_models_nth model_row_default_def)

lemma map_errors_to_data_flags:
  assumes "map_errors_to_data rnd pick data report = Some (Inr (out_data, out_errors))"
  shows "length out_data = length data"
    and "p < length data \<Longrightarrow>
         contains_issue (out_data ! p) \<longleftrightarrow>
           (\<exists>eo \<in> set report. \<exists>(k, fi) \<in> set (position_table eo).
              \<exists>i. py_int k = Inr i \<and> py_index data i = Inr p)"
proof -
  from map_errors_to_data_Inr[OF assms] obtain tt colors where
    l: "errors_loop pick tt (enumerate 0 report) colors (default_models data) [] =
          Inr (out_data, out_errors)"
    by blast
  show "length out_data = length data"
    using errors_loop_length[OF l] by (simp add: default_models_length)
  assume p: "p < length data"
  have pi: "py_index (default_models data) i = py_index data i" for i
    using py_index_length[OF default_models_length] .
  have "contains_issue (out_data ! p) \<longleftrightarrow>
     (\<exists>a \<in> set (enumerate 0 report). \<exists>k \<in> set (map fst (position_table (snd a))).
        \<exists>i. py_int k = Inr i \<and> py_index data i = Inr p)"
    using errors_loop_flags[OF l, of p] p default_models_unflagged[OF p]
    by (simp add: default_models_length pi)
  also have "\<dots> \<longleftrightarrow> (\<exists>eo \<in> set report.
        \<exists>k \<in> set (map fst (position_table eo)). \<exists>i. py_int k = Inr i \<and> py_index data i = Inr p)"
    by (rule ex_enumerate)
  also have "\<dots> \<longleftrightarrow> (\<exists>eo \<in> set report. \<exists>(k, fi) \<in> set (position_table eo).
              \<exists>i. py_int k = Inr i \<and> py_index data i = Inr p)"
    by force
  finally show "contains_issue (out_data ! p) \<longleftrightarrow>
           (\<exists>eo \<in> set report. \<exists>(k, fi) \<in> set (position_table eo).
              \<exists>i. py_int k = Inr i \<and> py_index data i = Inr p)" .
qed


subsection \<open>Errors that list items leave an issue in each row they flag\<close>

lemma list_all2_ex:
  assumes "\<And>a b. R a b \<Longrightarrow> P a \<Longrightarrow> P b"
  shows "list_all2 R xs ys \<Longrightarrow> list_ex P xs \<Longrightarrow> list_ex P ys"
proof (induction xs ys rule: list_all2_induct)
  case Nil
  then show ?case by simp
next
  case (Cons x xs y ys)
  then show ?case using assms by auto
qed

lemma fields_rel_ex_items:
  assumes "\<And>a b. R a b \<Longrightarrow> P a \<Longrightarrow> P b"
  shows "fields_rel R fs gs \<Longrightarrow> list_ex P (concat (map snd fs)) \<Longrightarrow>
         list_ex P (concat (map snd gs))"
  unfolding fields_rel_def
proof (induction fs gs rule: list_all2_induct)
  case Nil
  then show ?case by simp
next
  case (Cons p fs q gs)
  have "list_ex P (snd q)" if h: "list_ex P (snd p)"
  proof (rule list_all2_ex[where R = R and P = P])
    show "list_all2 R (snd p) (snd q)" using Cons.hyps(1) by simp
    show "list_ex P (snd p)" by (rule h)
    fix a b assume "R a b" "P a"
    then show "P b" by (rule assms)
  qed
  with Cons show ?case by auto
qed

lemma update_items_ex:
  "map_of fs f = Some its \<Longrightarrow> list_ex P its' \<Longrightarrow>
   list_ex P (concat (map snd (AList.update f its' fs)))"
  by (induction fs) (auto split: if_splits)

lemma grew_keeps_issue: "grew e a b \<Longrightarrow> issues a \<noteq> [] \<Longrightarrow> issues b \<noteq> []"
  by (auto simp: grew_def add_issue_def split: if_splits)

lemma fields_rel_grew_ex:
  assumes "fields_rel (grew e) fs gs" "list_ex (\<lambda>it. issues it \<noteq> []) (concat (map snd fs))"
  shows "list_ex (\<lambda>it. issues it \<noteq> []) (concat (map snd gs))"
proof (rule fields_rel_ex_items[where R = "grew e", OF _ assms])
  fix a b assume "grew e a b" "issues a \<noteq> []"
  then show "issues b \<noteq> []" by (rule grew_keeps_issue)
qed

lemma add_issue_nonempty: "issues (add_issue e it) \<noteq> []"
  by (auto simp: add_issue_def split: if_splits)

lemma enrich_items_attaches:
  assumes "enrich_items e f (j # js) fs = Inr fs'"
  shows "list_ex (\<lambda>it. issues it \<noteq> []) (concat (map snd fs'))"
proof -
  from assms obtain its p where
    m: "map_of fs f = Some its" and p: "py_index its j = Inr p"
    and r: "enrich_items e f js (AList.update f (its[p := add_issue e (its ! p)]) fs) = Inr fs'"
    by (auto split: option.splits sum.splits)
  let ?its' = "its[p := add_issue e (its ! p)]"
  have "?its' ! p \<in> set ?its'" using py_index_bound[OF p] by (intro nth_mem) simp
  moreover have "issues (?its' ! p) \<noteq> []"
    using py_index_bound[OF p] by (simp add: add_issue_nonempty)
  ultimately have "list_ex (\<lambda>it. issues it \<noteq> []) ?its'" unfolding list_ex_iff by blast
  from update_items_ex[OF m this]
  have "list_ex (\<lambda>it. issues it \<noteq> []) (concat (map snd (AList.update f ?its' fs)))" .
  with fields_rel_grew_ex[OF enrich_items_rel[OF r]]
  show ?thesis by blast
qed

lemma enrich_field_info_attaches:
  assumes "enrich_field_info e ((f, io) # fi) fs = Inr fs'" "io \<noteq> Some []"
  shows "list_ex (\<lambda>it. issues it \<noteq> []) (concat (map snd fs'))"
proof -
  from assms(1) obtain fs1 where
    s1: "enrich_items e f (case io of None \<Rightarrow> [0] | Some idxs \<Rightarrow> idxs) fs = Inr fs1"
    and s2: "enrich_field_info e fi fs1 = Inr fs'"
    by (auto split: sum.splits)
  from assms(2) obtain j js where "(case io of None \<Rightarrow> [0] | Some idxs \<Rightarrow> idxs) = j # js"
    by (cases io) (auto simp: neq_Nil_conv)
  with s1 have "list_ex (\<lambda>it. issues it \<noteq> []) (concat (map snd fs1))"
    using enrich_items_attaches by metis
  with fields_rel_grew_ex[OF enrich_field_info_rel[OF s2]]
  show ?thesis by blast
qed

lemma enrich_row_attaches:
  assumes "enrich_row m eo e = Inr m'" "position_table eo \<noteq> []" "lists_items eo"
  shows "row_has_issue m'"
proof -
  from assms(2) obtain k fi tb where tb: "position_table eo = (k, fi) # tb"
    by (cases "position_table eo") auto
  with assms(3) obtain f io fi' where fi: "fi = (f, io) # fi'" "io \<noteq> Some []"
    by (cases fi) (auto simp: lists_items_def)
  from assms(1) tb obtain fs where
    t: "enrich_table e ((k, fi) # tb) (row_fields m) = Inr fs"
    and m': "m' = m\<lparr>row_fields := fs, contains_issue := True\<rparr>"
    by (auto simp: enrich_row_def split: sum.splits)
  from t obtain fs1 where
    s1: "enrich_field_info e fi (row_fields m) = Inr fs1" and s2: "enrich_table e tb fs1 = Inr fs"
    by (auto split: sum.splits)
  from s1 fi have "list_ex (\<lambda>it. issues it \<noteq> []) (concat (map snd fs1))"
    using enrich_field_info_attaches by blast
  with fields_rel_grew_ex[OF enrich_table_rel[OF s2]]
  have "list_ex (\<lambda>it. issues it \<noteq> []) (concat (map snd fs))" by blast
  then show ?thesis by (simp add: m' row_has_issue_def items_of_def)
qed

lemma enrich_rows_attaches:
  "enrich_rows is eo e out = Inr out' \<Longrightarrow> position_table eo \<noteq> [] \<Longrightarrow> lists_items eo \<Longrightarrow>
   list_all (\<lambda>m. contains_issue m \<longrightarrow> row_has_issue m) out \<Longrightarrow>
   list_all (\<lambda>m. contains_issue m \<longrightarrow> row_has_issue m) out'"
proof (induction "is" arbitrary: out)
  case Nil
  then show ?case by simp
next
  case (Cons i0 "is")
  from Cons.prems(1) obtain p0 m where
    p0: "py_index out i0 = Inr p0" and m: "enrich_row (out ! p0) eo e = Inr m"
    and r: "enrich_rows is eo e (out[p0 := m]) = Inr out'"
    by (auto split: sum.splits)
  have "row_has_issue m" using enrich_row_attaches[OF m Cons.prems(2,3)] .
  then have "list_all (\<lambda>m. contains_issue m \<longrightarrow> row_has_issue m) (out[p0 := m])"
    using Cons.prems(4) by (auto simp: list_all_iff dest: set_update_subset_insert[THEN subsetD])
  from Cons.IH[OF r Cons.prems(2,3) this] show ?case .
qed

lemma errors_loop_attaches:
  "errors_loop pick tt es colors out errs = Inr (out', errs') \<Longrightarrow>
   list_all (\<lambda>a. lists_items (snd a)) es \<Longrightarrow>
   list_all (\<lambda>m. contains_issue m \<longrightarrow> row_has_issue m) out \<Longrightarrow>
   list_all (\<lambda>m. contains_issue m \<longrightarrow> row_has_issue m) out'"
proof (induction es arbitrary: colors out errs)
  case Nil
  then show ?case by simp
next
  case (Cons a es)
  obtain idx eo where a: "a = (idx, eo)" by (cases a)
  from Cons.prems(1) a obtain c colors1 idxs out1 errs1 where
    ks: "int_keys (map fst (position_table eo)) = Inr idxs"
    and r: "enrich_rows idxs eo (tt @ ''-'' @ str_nat idx) out = Inr out1"
    and l: "errors_loop pick tt es colors1 out1 errs1 = Inr (out', errs')"
    by (auto simp: Let_def split: sum.splits prod.splits)
  have "list_all (\<lambda>m. contains_issue m \<longrightarrow> row_has_issue m) out1"
  proof (cases "position_table eo = []")
    case True
    with ks have "idxs = []" by simp
    with r Cons.prems(3) show ?thesis by simp
  next
    case False
    from enrich_rows_attaches[OF r False _ Cons.prems(3)] Cons.prems(2) a show ?thesis by simp
  qed
  moreover have "list_all (\<lambda>a. lists_items (snd a)) es" using Cons.prems(2) by simp
  ultimately show ?case using Cons.IH[OF l] by blast
qed

lemma map_errors_to_data_attaches:
  assumes "map_errors_to_data rnd pick data report = Some (Inr (out_data, out_errors))"
    and "list_all lists_items report" "m \<in> set out_data" "contains_issue m"
  shows "row_has_issue m"
proof -
  from map_errors_to_data_Inr[OF assms(1)] obtain tt colors where
    l: "errors_loop pick tt (enumerate 0 report) colors (default_models data) [] =
          Inr (out_data, out_errors)"
    by blast
  have a: "list_all (\<lambda>a. lists_items (snd a)) (enumerate 0 report)"
    using assms(2) by (auto simp: list_all_iff in_set_enumerate_eq)
  have b: "list_all (\<lambda>m. contains_issue m \<longrightarrow> row_has_issue m) (default_models data)"
    by (auto simp: list_all_iff in_set_conv_nth default_models_length default_models_unflagged)
  from errors_loop_attaches[OF l a b] assms(3,4) show ?thesis by (simp add: list_all_iff)
qed

section \<open>Rows and reports used as concrete inputs\<close>

definition cits_row :: row where
  "cits_row = Citations \<lparr>citing_id = [''doi:a'', ''doi:b''], citing_publication_date = None,
                          cited_id = [], cited_publication_date = Some ''2020''\<rparr>"

text \<open>
  A source of colour samples and a choice for \<^verbatim>\<open>set.pop\<close>, to run the pass on concrete
  inputs, and an error object with a given position table.
\<close>

definition rnd_seq :: "nat \<Rightarrow> int \<times> int \<times> int" where
  "rnd_seq k = (int (k mod 256), 128, 200)"

definition pick_first :: "string list \<Rightarrow> nat" where
  "pick_first cs = 0"

definition mk_error :: "(string \<times> field_info) list \<Rightarrow> error_obj" where
  "mk_error tb = \<lparr>message = ''m'', error_label = ''l'', error_type = ''error'', position_table = tb\<rparr>"


definition cits_row_enriched :: row_model where
  "cits_row_enriched =
     \<lparr>contains_issue = True, row_idx = 0,
      row_fields =
        [(''citing_id'',
          [\<lparr>raw = ''doi:a'', item_id = ''0-citing_id-0'', issues = [''cits-0'']\<rparr>,
           \<lparr>raw = ''doi:b'', item_id = ''0-citing_id-1'', issues = []\<rparr>]),
         (''citing_publication_date'',
          [\<lparr>raw = [], item_id = ''0-citing_publication_date-empty'', issues = []\<rparr>]),
         (''cited_id'',
          [\<lparr>raw = [], item_id = ''0-cited_id-empty'', issues = []\<rparr>]),
         (''cited_publication_date'',
          [\<lparr>raw = ''2020'', item_id = ''0-cited_publication_date-0'', issues = []\<rparr>])]\<rparr>"

text \<open>A metadata row, parsed from a raw row with an identifier, an empty title and two authors.\<close>

definition meta_row :: row where
  "meta_row = Metadata (MetadataRow_init
     [''id'' \<mapsto> ''doi:10/x'', ''title'' \<mapsto> [],
      ''author'' \<mapsto> ''Smith, J. [orcid:0000-0001 viaf:123]; Doe, A.''])"

text \<open>A citations row with a single citing identifier.\<close>

definition cits_row_short :: row where
  "cits_row_short = Citations \<lparr>citing_id = [''doi:c''], citing_publication_date = None,
                                cited_id = [''doi:d''], cited_publication_date = None\<rparr>"



text \<open>
  The model of \<open>cits_row\<close> at a given index in which the second citing identifier and the
  sentinel of the empty field \<^verbatim>\<open>cited_id\<close> carry the issue \<^verbatim>\<open>cits-0\<close>.
\<close>

definition cits_row_marked :: "int \<Rightarrow> row_model" where
  "cits_row_marked idx =
     \<lparr>contains_issue = True, row_idx = idx,
      row_fields =
        [(''citing_id'',
          [\<lparr>raw = ''doi:a'', item_id = str_int idx @ ''-citing_id-0'', issues = []\<rparr>,
           \<lparr>raw = ''doi:b'', item_id = str_int idx @ ''-citing_id-1'', issues = [''cits-0'']\<rparr>]),
         (''citing_publication_date'',
          [\<lparr>raw = [], item_id = str_int idx @ ''-citing_publication_date-empty'', issues = []\<rparr>]),
         (''cited_id'',
          [\<lparr>raw = [], item_id = str_int idx @ ''-cited_id-empty'', issues = [''cits-0'']\<rparr>]),
         (''cited_publication_date'',
          [\<lparr>raw = ''2020'', item_id = str_int idx @ ''-cited_publication_date-0'',
            issues = []\<rparr>])]\<rparr>"

text \<open>
  The model of \<open>cits_row\<close> at a given index in which both citing identifiers carry the
  issue \<^verbatim>\<open>cits-0\<close>.
\<close>

definition cits_row_both :: "int \<Rightarrow> row_model" where
  "cits_row_both idx =
     \<lparr>contains_issue = True, row_idx = idx,
      row_fields =
        [(''citing_id'',
          [\<lparr>raw = ''doi:a'', item_id = str_int idx @ ''-citing_id-0'', issues = [''cits-0'']\<rparr>,
           \<lparr>raw = ''doi:b'', item_id = str_int idx @ ''-citing_id-1'', issues = [''cits-0'']\<rparr>]),
         (''citing_publication_date'',
          [\<lparr>raw = [], item_id = str_int idx @ ''-citing_publication_date-empty'', issues = []\<rparr>]),
         (''cited_id'',
          [\<lparr>raw = [], item_id = str_int idx @ ''-cited_id-empty'', issues = []\<rparr>]),
         (''cited_publication_date'',
          [\<lparr>raw = ''2020'', item_id = str_int idx @ ''-cited_publication_date-0'',
            issues = []\<rparr>])]\<rparr>"

section \<open>The claims\<close>

text \<open>
  C6. For every typed row and every row index, \<open>model_row_default\<close> gives the row index
  it was called with and \<open>contains_issue = False\<close>; the field labels of the model are
  those of the flattened row, in the same order; for each label the model has exactly one
  sentinel item (raw the empty string, identifier \<^verbatim>\<open>{row_idx}-{label}-empty\<close>) when the
  flattened list is empty, and otherwise one item per flattened value, in the same order,
  with identifier \<^verbatim>\<open>{row_idx}-{label}-{index}\<close> and no issues; and the identifiers of
  all items of the row, over all fields, are pairwise different.
\<close>

theorem C6_model_row_default:
  "contains_issue (model_row_default r idx) = False \<and>
   row_idx (model_row_default r idx) = idx \<and>
   map fst (row_fields (model_row_default r idx)) = map fst (flat_serialise r) \<and>
   (\<forall>f xs. (f, xs) \<in> set (flat_serialise r) \<longrightarrow>
      (\<exists>its. map_of (row_fields (model_row_default r idx)) f = Some its \<and>
         (xs = [] \<longrightarrow>
            its = [\<lparr>raw = [], item_id = str_int idx @ ''-'' @ f @ ''-empty'', issues = []\<rparr>]) \<and>
         (xs \<noteq> [] \<longrightarrow> length its = length xs \<and>
            (\<forall>i < length xs.
               its ! i = \<lparr>raw = xs ! i, item_id = str_int idx @ ''-'' @ f @ ''-'' @ str_nat i,
                          issues = []\<rparr>)))) \<and>
   distinct (concat (map (\<lambda>(f, its). map item_id its) (row_fields (model_row_default r idx))))"
proof -
  have a: "contains_issue (model_row_default r idx) = False" "row_idx (model_row_default r idx) = idx"
    by (simp_all add: model_row_default_def)
  have b: "map fst (row_fields (model_row_default r idx)) = map fst (flat_serialise r)"
    by (simp add: model_row_fields comp_def case_prod_unfold)
  have c: "\<exists>its. map_of (row_fields (model_row_default r idx)) f = Some its \<and>
         (xs = [] \<longrightarrow>
            its = [\<lparr>raw = [], item_id = str_int idx @ ''-'' @ f @ ''-empty'', issues = []\<rparr>]) \<and>
         (xs \<noteq> [] \<longrightarrow> length its = length xs \<and>
            (\<forall>i < length xs.
               its ! i = \<lparr>raw = xs ! i, item_id = str_int idx @ ''-'' @ f @ ''-'' @ str_nat i,
                          issues = []\<rparr>))"
    if "(f, xs) \<in> set (flat_serialise r)" for f xs
    using map_of_model_row[OF that, of idx]
    by (simp add: field_value_model_empty field_value_model_length field_value_model_nth)
  from a b c model_ids_distinct show ?thesis by blast
qed

theorem C6_model_row_default_witness:
  "(''cited_id'', []) \<in> set (flat_serialise cits_row) \<and>
   map_of (row_fields (model_row_default cits_row 4)) ''cited_id'' =
     Some [\<lparr>raw = [], item_id = str_int 4 @ ''-'' @ ''cited_id'' @ ''-empty'', issues = []\<rparr>] \<and>
   (''citing_id'', [''doi:a'', ''doi:b'']) \<in> set (flat_serialise cits_row) \<and>
   (\<exists>its. map_of (row_fields (model_row_default cits_row 4)) ''citing_id'' = Some its \<and>
      length its = 2 \<and>
      its ! 1 = \<lparr>raw = ''doi:b'', item_id = str_int 4 @ ''-'' @ ''citing_id'' @ ''-'' @ str_nat 1,
                 issues = []\<rparr>)"
proof -
  have h1: "(''cited_id'', []) \<in> set (flat_serialise cits_row)"
    by (simp add: cits_row_def CitationsRow_flat_serialise_def)
  have h2: "(''citing_id'', [''doi:a'', ''doi:b'']) \<in> set (flat_serialise cits_row)"
    by (simp add: cits_row_def CitationsRow_flat_serialise_def)
  note t = C6_model_row_default[of cits_row 4]
  from t h1 have c1: "map_of (row_fields (model_row_default cits_row 4)) ''cited_id'' =
     Some [\<lparr>raw = [], item_id = str_int 4 @ ''-'' @ ''cited_id'' @ ''-empty'', issues = []\<rparr>]"
    by blast
  from t h2 obtain its where
    i: "map_of (row_fields (model_row_default cits_row 4)) ''citing_id'' = Some its"
    and l: "[''doi:a'', ''doi:b''] \<noteq> [] \<longrightarrow> length its = length [''doi:a'', ''doi:b''] \<and>
            (\<forall>i < length [''doi:a'', ''doi:b''].
               its ! i = \<lparr>raw = [''doi:a'', ''doi:b''] ! i,
                          item_id = str_int 4 @ ''-'' @ ''citing_id'' @ ''-'' @ str_nat i,
                          issues = []\<rparr>)"
    by blast
  from l have "length its = 2 \<and>
      its ! 1 = \<lparr>raw = ''doi:b'', item_id = str_int 4 @ ''-'' @ ''citing_id'' @ ''-'' @ str_nat 1,
                 issues = []\<rparr>"
    by simp
  with h1 h2 c1 i show ?thesis by blast
qed

text \<open>
  C4, as the code has it. After a pass that returns there is one row model for each row,
  and the model at position \<open>p\<close> has \<open>contains_issue = True\<close> if and only if some entry
  of the report has, in its position table, a row key that addresses row \<open>p\<close> (the key
  read as an integer and used as a list index, so a negative key counts from the end);
  a row that no entry addresses stays unflagged. Every row with an item whose list of
  issues is not empty is flagged. The converse holds when every entry of the report lists
  items (no empty field map, no empty list of item indexes): then a row is flagged if and
  only if one of its items has an issue. It does not hold in general: see the
  counterexample. \<open>enrich_row\<close> sets the flag whenever it returns, whatever the error
  attaches, so a second error on the same row keeps it; and no step of the loop over the
  report resets a flag that is set.
\<close>

theorem C4_contains_issue:
  "(map_errors_to_data rnd pick data report = Some (Inr (out_data, out_errors)) \<longrightarrow>
      length out_data = length data \<and>
      (\<forall>p < length data.
         contains_issue (out_data ! p) \<longleftrightarrow>
           (\<exists>eo \<in> set report. \<exists>(k, fi) \<in> set (position_table eo).
              \<exists>i. py_int k = Inr i \<and> py_index data i = Inr p)) \<and>
      (\<forall>m \<in> set out_data. row_has_issue m \<longrightarrow> contains_issue m) \<and>
      (list_all lists_items report \<longrightarrow>
         (\<forall>m \<in> set out_data. contains_issue m \<longleftrightarrow> row_has_issue m))) \<and>
   (enrich_row m eo e = Inr m' \<longrightarrow> contains_issue m') \<and>
   (errors_loop pick tt es colors out errs = Inr (out', errs') \<longrightarrow>
      length out' = length out \<and>
      (\<forall>p < length out. contains_issue (out ! p) \<longrightarrow> contains_issue (out' ! p)))"
proof (intro conjI impI)
  assume a: "map_errors_to_data rnd pick data report = Some (Inr (out_data, out_errors))"
  show "length out_data = length data" using a by (rule map_errors_to_data_flags(1))
  show "\<forall>p < length data.
         contains_issue (out_data ! p) \<longleftrightarrow>
           (\<exists>eo \<in> set report. \<exists>(k, fi) \<in> set (position_table eo).
              \<exists>i. py_int k = Inr i \<and> py_index data i = Inr p)"
    using map_errors_to_data_flags(2)[OF a] by blast
  from map_errors_to_data_Inr[OF a] obtain tt' colors' where
    l: "errors_loop pick tt' (enumerate 0 report) colors' (default_models data) [] =
          Inr (out_data, out_errors)"
    by blast
  let ?K = "\<lambda>(a::row_model) m. row_has_issue m \<longrightarrow> contains_issue m"
  have init: "list_all2 ?K (default_models data) (default_models data)"
  proof (rule list_all2_all_nthI)
    fix n assume "n < length (default_models data)"
    then have "list_all (\<lambda>it. issues it = []) (items_of (default_models data ! n))"
      using default_models_no_issue[of "default_models data ! n" data] by simp
    then show "row_has_issue (default_models data ! n) \<longrightarrow> contains_issue (default_models data ! n)"
      by (auto simp: row_has_issue_def list_all_iff list_ex_iff)
  qed simp
  have "list_all2 ?K (default_models data) out_data"
    by (rule errors_loop_keeps[where K = ?K, OF _ init l]) (rule flag_kept)
  then show bk: "\<forall>m \<in> set out_data. row_has_issue m \<longrightarrow> contains_issue m"
    by (auto simp: list_all2_conv_all_nth in_set_conv_nth)
  show "\<forall>m \<in> set out_data. contains_issue m \<longleftrightarrow> row_has_issue m"
    if "list_all lists_items report"
    using bk map_errors_to_data_attaches[OF a that] by blast
next
  assume "enrich_row m eo e = Inr m'"
  then show "contains_issue m'" using enrich_row_props by blast
next
  assume l: "errors_loop pick tt es colors out errs = Inr (out', errs')"
  then show "length out' = length out" by (rule errors_loop_length)
  let ?K = "\<lambda>a m. contains_issue a \<longrightarrow> contains_issue m"
  have step: "?K a m'" if "?K a m" "row_rel e m m'" for e a m m'
    using that by (auto simp: row_rel_def)
  have "list_all2 ?K out out" by (simp add: list_all2_refl)
  from errors_loop_keeps[where K = ?K, OF step this l]
  show "\<forall>p < length out. contains_issue (out ! p) \<longrightarrow> contains_issue (out' ! p)"
    by (simp add: list_all2_conv_all_nth)
qed


text \<open>
  The claim says "if and only if". A report entry that addresses row 0 with an empty list
  of item indexes attaches nothing, and the row is flagged all the same: the result is the
  default model of the row with the flag set, and no item of it has an issue.
\<close>

theorem C4_counterexample:
  "map_errors_to_data rnd_seq pick_first [cits_row] [mk_error [(''0'', [(''citing_id'', Some [])])]] =
     Some (Inr ([(model_row_default cits_row 0)\<lparr>contains_issue := True\<rparr>],
                [(''cits-0'', \<lparr>info_message = ''m'', label = ''l'', level = ''error'',
                               color = ''#0080c8''\<rparr>)])) \<and>
   contains_issue ((model_row_default cits_row 0)\<lparr>contains_issue := True\<rparr>) \<and>
   \<not> row_has_issue ((model_row_default cits_row 0)\<lparr>contains_issue := True\<rparr>)"
  by code_simp

theorem C4_contains_issue_witness:
  "map_errors_to_data rnd_seq pick_first [cits_row, cits_row_short]
     [mk_error [(''0'', [(''citing_id'', Some [0])])]] =
     Some (Inr ([cits_row_enriched, model_row_default cits_row_short 1],
                [(''cits-0'', \<lparr>info_message = ''m'', label = ''l'', level = ''error'',
                               color = ''#0080c8''\<rparr>)])) \<and>
   list_all lists_items [mk_error [(''0'', [(''citing_id'', Some [0])])]] \<and>
   row_has_issue cits_row_enriched \<and> contains_issue cits_row_enriched \<and>
   \<not> row_has_issue (model_row_default cits_row_short 1) \<and>
   \<not> contains_issue (model_row_default cits_row_short 1) \<and>
   py_int ''0'' = Inr 0 \<and> py_index [cits_row, cits_row_short] 0 = Inr 0 \<and>
   enrich_row cits_row_enriched (mk_error [(''-1'', [(''cited_id'', None)])]) ''cits-1'' =
     Inr (cits_row_enriched\<lparr>row_fields :=
            AList.update ''cited_id''
              [\<lparr>raw = [], item_id = ''0-cited_id-empty'', issues = [''cits-1'']\<rparr>]
              (row_fields cits_row_enriched)\<rparr>) \<and>
   errors_loop pick_first ''cits'' [(1, mk_error [(''-1'', [(''cited_id'', None)])])]
     [''#0180c8''] [cits_row_enriched] [] =
     Inr ([cits_row_enriched\<lparr>row_fields :=
            AList.update ''cited_id''
              [\<lparr>raw = [], item_id = ''0-cited_id-empty'', issues = [''cits-1'']\<rparr>]
              (row_fields cits_row_enriched)\<rparr>],
          [(''cits-1'', \<lparr>info_message = ''m'', label = ''l'', level = ''error'',
                         color = ''#0180c8''\<rparr>)])"
proof -
  let ?rep = "[mk_error [(''0'', [(''citing_id'', Some [0])])]]"
  let ?errs = "[(''cits-0'', \<lparr>info_message = ''m'', label = ''l'', level = ''error'',
                               color = ''#0080c8''\<rparr>)]"
  let ?out = "[cits_row_enriched, model_row_default cits_row_short 1]"
  have h1: "map_errors_to_data rnd_seq pick_first [cits_row, cits_row_short] ?rep =
              Some (Inr (?out, ?errs))"
    by code_simp
  have h2: "row_has_issue cits_row_enriched" by code_simp
  have h3: "list_all lists_items ?rep" by code_simp
  have h4: "\<not> row_has_issue (model_row_default cits_row_short 1)" by code_simp
  have h5: "py_int ''0'' = Inr 0" by code_simp
  have h6: "py_index [cits_row, cits_row_short] 0 = Inr 0" by code_simp
  have "\<forall>m \<in> set ?out. contains_issue m \<longleftrightarrow> row_has_issue m"
    using C4_contains_issue[of rnd_seq pick_first "[cits_row, cits_row_short]" ?rep ?out ?errs]
      h1 h3 by blast
  with h2 h4 have h7: "contains_issue cits_row_enriched"
    "\<not> contains_issue (model_row_default cits_row_short 1)"
    by simp_all
  have h8: "enrich_row cits_row_enriched (mk_error [(''-1'', [(''cited_id'', None)])]) ''cits-1'' =
     Inr (cits_row_enriched\<lparr>row_fields :=
            AList.update ''cited_id''
              [\<lparr>raw = [], item_id = ''0-cited_id-empty'', issues = [''cits-1'']\<rparr>]
              (row_fields cits_row_enriched)\<rparr>)"
    by code_simp
  have h9: "errors_loop pick_first ''cits'' [(1, mk_error [(''-1'', [(''cited_id'', None)])])]
     [''#0180c8''] [cits_row_enriched] [] =
     Inr ([cits_row_enriched\<lparr>row_fields :=
            AList.update ''cited_id''
              [\<lparr>raw = [], item_id = ''0-cited_id-empty'', issues = [''cits-1'']\<rparr>]
              (row_fields cits_row_enriched)\<rparr>],
          [(''cits-1'', \<lparr>info_message = ''m'', label = ''l'', level = ''error'',
                         color = ''#0180c8''\<rparr>)])"
    by code_simp
  from h1 h2 h3 h4 h5 h6 h7 h8 h9 show ?thesis by blast
qed




text \<open>
  C10. \<open>map_errors_to_data\<close> on the empty list of rows raises \<^verbatim>\<open>IndexError\<close> (from
  \<^verbatim>\<open>data[0]\<close>), whatever the report, the empty report included. On a list with a first
  row, a call that returns has given the errors the identifiers \<^verbatim>\<open>cits-0\<close>, \<^verbatim>\<open>cits-1\<close>, ...
  in report order when the first row is a \<^verbatim>\<open>CitationsRow\<close>, and \<^verbatim>\<open>meta-0\<close>, \<^verbatim>\<open>meta-1\<close>, ...
  otherwise; these are the keys of the catalogue, and every issue attached to an item is
  one of them.
\<close>

theorem C10_table_type:
  "map_errors_to_data rnd pick [] report = Some (Inl IndexError) \<and>
   (map_errors_to_data rnd pick (r # rs) report = Some (Inr (out_data, out_errors)) \<longrightarrow>
      map fst out_errors =
        map (\<lambda>i. (if is_CitationsRow r then ''cits'' else ''meta'') @ ''-'' @ str_nat i)
            [0..<length report] \<and>
      (\<forall>m \<in> set out_data. \<forall>it \<in> set (items_of m). set (issues it) \<subseteq> set (map fst out_errors)))"
proof (intro conjI impI)
  show "map_errors_to_data rnd pick [] report = Some (Inl IndexError)"
    by (simp add: map_errors_to_data_def)
next
  assume a: "map_errors_to_data rnd pick (r # rs) report = Some (Inr (out_data, out_errors))"
  from map_errors_to_data_ids(1)[OF a]
  show "map fst out_errors =
        map (\<lambda>i. (if is_CitationsRow r then ''cits'' else ''meta'') @ ''-'' @ str_nat i)
            [0..<length report]" .
  from map_errors_to_data_ids(2)[OF a]
  show "\<forall>m \<in> set out_data. \<forall>it \<in> set (items_of m). set (issues it) \<subseteq> set (map fst out_errors)"
    by simp
qed

theorem C10_table_type_witness:
  "map_errors_to_data rnd_seq pick_first [meta_row, cits_row] [mk_error []] =
     Some (Inr (default_models [meta_row, cits_row],
                [(''meta-0'', \<lparr>info_message = ''m'', label = ''l'', level = ''error'',
                               color = ''#0080c8''\<rparr>)])) \<and>
   map fst [(''meta-0'', \<lparr>info_message = ''m'', label = ''l'', level = ''error'',
                          color = ''#0080c8''\<rparr>)] =
     map (\<lambda>i. (if is_CitationsRow meta_row then ''cits'' else ''meta'') @ ''-'' @ str_nat i)
         [0..<length [mk_error []]] \<and>
   map_errors_to_data rnd_seq pick_first [cits_row, meta_row]
     [mk_error [(''0'', [(''citing_id'', Some [0])])]] =
     Some (Inr ([cits_row_enriched, model_row_default meta_row 1],
                [(''cits-0'', \<lparr>info_message = ''m'', label = ''l'', level = ''error'',
                               color = ''#0080c8''\<rparr>)])) \<and>
   map fst [(''cits-0'', \<lparr>info_message = ''m'', label = ''l'', level = ''error'',
                          color = ''#0080c8''\<rparr>)] =
     map (\<lambda>i. (if is_CitationsRow cits_row then ''cits'' else ''meta'') @ ''-'' @ str_nat i)
         [0..<length [mk_error [(''0'', [(''citing_id'', Some [0])])]]]"
proof -
  let ?e1 = "[(''meta-0'', \<lparr>info_message = ''m'', label = ''l'', level = ''error'',
                               color = ''#0080c8''\<rparr>)]"
  let ?e2 = "[(''cits-0'', \<lparr>info_message = ''m'', label = ''l'', level = ''error'',
                               color = ''#0080c8''\<rparr>)]"
  have h1: "map_errors_to_data rnd_seq pick_first [meta_row, cits_row] [mk_error []] =
     Some (Inr (default_models [meta_row, cits_row], ?e1))"
    by code_simp
  have h2: "map_errors_to_data rnd_seq pick_first [cits_row, meta_row]
     [mk_error [(''0'', [(''citing_id'', Some [0])])]] =
     Some (Inr ([cits_row_enriched, model_row_default meta_row 1], ?e2))"
    by code_simp
  from C10_table_type[of rnd_seq pick_first "[mk_error []]" meta_row "[cits_row]"
      "default_models [meta_row, cits_row]" ?e1] h1
  have c1: "map fst ?e1 =
     map (\<lambda>i. (if is_CitationsRow meta_row then ''cits'' else ''meta'') @ ''-'' @ str_nat i)
         [0..<length [mk_error []]]"
    by blast
  from C10_table_type[of rnd_seq pick_first "[mk_error [(''0'', [(''citing_id'', Some [0])])]]"
      cits_row "[meta_row]" "[cits_row_enriched, model_row_default meta_row 1]" ?e2] h2
  have c2: "map fst ?e2 =
     map (\<lambda>i. (if is_CitationsRow cits_row then ''cits'' else ''meta'') @ ''-'' @ str_nat i)
         [0..<length [mk_error [(''0'', [(''citing_id'', Some [0])])]]]"
    by blast
  from h1 h2 c1 c2 show ?thesis by blast
qed

text \<open>
  C1, on the code. The property: the identifier of an error is attached, in the row that a
  row key of its position table names, to the items listed under that key, and to no item
  of any other row. The code does not do this: \<open>enrich_row\<close> walks the whole table
  without reading the row key, so each row that the error names receives the field maps of
  all the rows it names. With \<^verbatim>\<open>{"0": {"citing_id": [1]}, "1": {"cited_id": null}}\<close> on two
  equal rows, both rows get the identifier on \<^verbatim>\<open>citing_id[1]\<close> and on the \<^verbatim>\<open>cited_id\<close>
  sentinel; and with \<^verbatim>\<open>{"0": {"citing_id": [1]}, "1": {"citing_id": [0]}}\<close>, where row 1 has
  a single citing identifier, index 1 is applied to row 1 as well and the pass raises
  \<^verbatim>\<open>IndexError\<close> on a report whose coordinates are all in range.
\<close>

theorem C1_every_row_gets_every_field_map:
  "map_errors_to_data rnd_seq pick_first [cits_row, cits_row]
     [mk_error [(''0'', [(''citing_id'', Some [1])]), (''1'', [(''cited_id'', None)])]] =
     Some (Inr ([cits_row_marked 0, cits_row_marked 1],
                [(''cits-0'', \<lparr>info_message = ''m'', label = ''l'', level = ''error'',
                               color = ''#0080c8''\<rparr>)])) \<and>
   map_errors_to_data rnd_seq pick_first [cits_row, cits_row_short]
     [mk_error [(''0'', [(''citing_id'', Some [1])]), (''1'', [(''citing_id'', Some [0])])]] =
     Some (Inl IndexError)"
  by code_simp






text \<open>
  C3, as the code has it. For each scalar field of a metadata row (\<^verbatim>\<open>title\<close>,
  \<^verbatim>\<open>pub_date\<close>, \<^verbatim>\<open>volume\<close>, \<^verbatim>\<open>issue\<close>, \<^verbatim>\<open>page\<close>, \<^verbatim>\<open>type\<close>): a missing raw value
  gives an absent value, the flattened field is the empty list and its model is the single
  sentinel item; a raw value that is present, the empty string included, is passed through
  as it is: the flattened field is the list of that one string and its model is one
  ordinary item, with that string as raw and the identifier \<^verbatim>\<open>{row_idx}-{label}-0\<close>.
\<close>

theorem C3_scalar_fields:
  "f \<in> set [''title'', ''pub_date'', ''volume'', ''issue'', ''page'', ''type''] \<longrightarrow>
   (raw_row f = None \<longrightarrow>
      map_of (flat_serialise (Metadata (MetadataRow_init raw_row))) f = Some [] \<and>
      map_of (row_fields (model_row_default (Metadata (MetadataRow_init raw_row)) idx)) f =
        Some [\<lparr>raw = [], item_id = str_int idx @ ''-'' @ f @ ''-empty'', issues = []\<rparr>]) \<and>
   (raw_row f = Some s \<longrightarrow>
      map_of (flat_serialise (Metadata (MetadataRow_init raw_row))) f = Some [s] \<and>
      map_of (row_fields (model_row_default (Metadata (MetadataRow_init raw_row)) idx)) f =
        Some [\<lparr>raw = s, item_id = str_int idx @ ''-'' @ f @ ''-0'', issues = []\<rparr>])"
proof (intro impI conjI)
  assume f: "f \<in> set [''title'', ''pub_date'', ''volume'', ''issue'', ''page'', ''type'']"
  {
    assume n: "raw_row f = None"
    from scalar_flat[OF f, of raw_row] n
    show a: "map_of (flat_serialise (Metadata (MetadataRow_init raw_row))) f = Some []" by simp
    from map_of_flat_model[OF a, of idx]
    show "map_of (row_fields (model_row_default (Metadata (MetadataRow_init raw_row)) idx)) f =
        Some [\<lparr>raw = [], item_id = str_int idx @ ''-'' @ f @ ''-empty'', issues = []\<rparr>]"
      by (simp add: field_value_model_empty)
  }
  {
    assume n: "raw_row f = Some s"
    from scalar_flat[OF f, of raw_row] n
    show a: "map_of (flat_serialise (Metadata (MetadataRow_init raw_row))) f = Some [s]" by simp
    from map_of_flat_model[OF a, of idx]
    show "map_of (row_fields (model_row_default (Metadata (MetadataRow_init raw_row)) idx)) f =
        Some [\<lparr>raw = s, item_id = str_int idx @ ''-'' @ f @ ''-0'', issues = []\<rparr>]"
      by (simp only: field_value_model_single)
  }
qed


text \<open>
  The claim fails for the empty string: \<^verbatim>\<open>raw_row.get('title')\<close> returns it, and
  \<^verbatim>\<open>'' is not None\<close>, so the flattened title is \<^verbatim>\<open>['']\<close> and the model has the item
  \<^verbatim>\<open>0-title-0\<close>, not the sentinel \<^verbatim>\<open>0-title-empty\<close>; the missing \<^verbatim>\<open>volume\<close> of the same
  row has the sentinel.
\<close>

theorem C3_counterexample:
  "map_of (flat_serialise (Metadata (MetadataRow_init [''title'' \<mapsto> []]))) ''title'' = Some [[]] \<and>
   map_of (row_fields (model_row_default (Metadata (MetadataRow_init [''title'' \<mapsto> []])) 0))
     ''title'' = Some [\<lparr>raw = [], item_id = ''0-title-0'', issues = []\<rparr>] \<and>
   map_of (row_fields (model_row_default (Metadata (MetadataRow_init [''title'' \<mapsto> []])) 0))
     ''volume'' = Some [\<lparr>raw = [], item_id = ''0-volume-empty'', issues = []\<rparr>]"
  by code_simp

theorem C3_scalar_fields_witness:
  "''title'' \<in> set [''title'', ''pub_date'', ''volume'', ''issue'', ''page'', ''type''] \<and>
   [''title'' \<mapsto> ''A title''] ''title'' = Some ''A title'' \<and>
   map_of (flat_serialise (Metadata (MetadataRow_init [''title'' \<mapsto> ''A title'']))) ''title'' =
     Some [''A title''] \<and>
   map_of (row_fields (model_row_default (Metadata (MetadataRow_init [''title'' \<mapsto> ''A title''])) 7))
     ''title'' = Some [\<lparr>raw = ''A title'', item_id = str_int 7 @ ''-'' @ ''title'' @ ''-0'',
                         issues = []\<rparr>] \<and>
   ''page'' \<in> set [''title'', ''pub_date'', ''volume'', ''issue'', ''page'', ''type''] \<and>
   [''title'' \<mapsto> ''A title''] ''page'' = None \<and>
   map_of (flat_serialise (Metadata (MetadataRow_init [''title'' \<mapsto> ''A title'']))) ''page'' =
     Some [] \<and>
   map_of (row_fields (model_row_default (Metadata (MetadataRow_init [''title'' \<mapsto> ''A title''])) 7))
     ''page'' = Some [\<lparr>raw = [], item_id = str_int 7 @ ''-'' @ ''page'' @ ''-empty'',
                        issues = []\<rparr>]"
proof -
  have h1: "''title'' \<in> set [''title'', ''pub_date'', ''volume'', ''issue'', ''page'', ''type'']"
    by simp
  have h2: "[''title'' \<mapsto> ''A title''] ''title'' = Some ''A title''" by simp
  have h3: "''page'' \<in> set [''title'', ''pub_date'', ''volume'', ''issue'', ''page'', ''type'']"
    by simp
  have h4: "[''title'' \<mapsto> ''A title''] ''page'' = None" by simp
  from C3_scalar_fields[of "''title''" "[''title'' \<mapsto> ''A title'']" 7 "''A title''"] h1 h2
  have c1: "map_of (flat_serialise (Metadata (MetadataRow_init [''title'' \<mapsto> ''A title'']))) ''title'' =
     Some [''A title''] \<and>
   map_of (row_fields (model_row_default (Metadata (MetadataRow_init [''title'' \<mapsto> ''A title''])) 7))
     ''title'' = Some [\<lparr>raw = ''A title'', item_id = str_int 7 @ ''-'' @ ''title'' @ ''-0'',
                         issues = []\<rparr>]"
    by blast
  from C3_scalar_fields[of "''page''" "[''title'' \<mapsto> ''A title'']" 7] h3 h4
  have c2: "map_of (flat_serialise (Metadata (MetadataRow_init [''title'' \<mapsto> ''A title'']))) ''page'' =
     Some [] \<and>
   map_of (row_fields (model_row_default (Metadata (MetadataRow_init [''title'' \<mapsto> ''A title''])) 7))
     ''page'' = Some [\<lparr>raw = [], item_id = str_int 7 @ ''-'' @ ''page'' @ ''-empty'',
                        issues = []\<rparr>]"
    by blast
  from h1 h2 h3 h4 c1 c2 show ?thesis by blast
qed

text \<open>
  C5, on the code. The property: a field entry whose item indexes are \<^verbatim>\<open>null\<close> is treated
  as the index list \<^verbatim>\<open>[0]\<close>, and the identifier of the error goes to item 0 of that field
  (the sentinel of an empty field, the first value otherwise) and to no other item of the
  field. The first half holds: wherever the entry stands in a field map, \<open>enrich_field_info\<close>
  gives the same result for \<^verbatim>\<open>null\<close> and for \<^verbatim>\<open>[0]\<close>. The second half does not:
  \<open>enrich_row\<close> applies to a row the field maps listed under every row key of the error, so
  with \<^verbatim>\<open>{"0": {"citing_id": null}, "1": {"citing_id": [1]}}\<close> on two rows with two citing
  identifiers each, row 0, whose entry is \<^verbatim>\<open>null\<close>, gets the identifier on \<^verbatim>\<open>citing_id[0]\<close>
  and on \<^verbatim>\<open>citing_id[1]\<close>, and so does row 1.
\<close>

theorem C5_null_entry_with_other_rows:
  "enrich_field_info e (fi1 @ (f, None) # fi2) fs =
     enrich_field_info e (fi1 @ (f, Some [0]) # fi2) fs \<and>
   map_errors_to_data rnd_seq pick_first [cits_row, cits_row]
     [mk_error [(''0'', [(''citing_id'', None)]), (''1'', [(''citing_id'', Some [1])])]] =
     Some (Inr ([cits_row_both 0, cits_row_both 1],
                [(''cits-0'', \<lparr>info_message = ''m'', label = ''l'', level = ''error'',
                               color = ''#0080c8''\<rparr>)]))"
proof
  show "enrich_field_info e (fi1 @ (f, None) # fi2) fs =
     enrich_field_info e (fi1 @ (f, Some [0]) # fi2) fs"
    by (simp add: enrich_field_info_append split: sum.splits)
  show "map_errors_to_data rnd_seq pick_first [cits_row, cits_row]
     [mk_error [(''0'', [(''citing_id'', None)]), (''1'', [(''citing_id'', Some [1])])]] =
     Some (Inr ([cits_row_both 0, cits_row_both 1],
                [(''cits-0'', \<lparr>info_message = ''m'', label = ''l'', level = ''error'',
                               color = ''#0080c8''\<rparr>)]))"
    by code_simp
qed

end
